theory Spec2Isabelle
  imports Main "HOL-Library.Word"
begin

unbundle bit_operations_syntax

section \<open>Bytes, buffers and addresses\<close>

type_synonym u8 = "8 word"
type_synonym u16 = "16 word"
type_synonym u32 = "32 word"

text \<open>An \<open>in6_addr\<close> is its 16 bytes in network order; a MAC address is 6 bytes.\<close>

type_synonym in6_addr = "u8 list"

text \<open>Two bytes at offset \<open>i\<close> read as a big-endian 16-bit value
  (\<^verbatim>\<open>_o[0] << 8 | _o[1]\<close>), and the two bytes \<open>htons\<close> stores.\<close>

definition be16 :: "u8 list \<Rightarrow> nat \<Rightarrow> nat" where
  "be16 buf i = unat (buf ! i) * 256 + unat (buf ! (i + 1))"

definition htons :: "nat \<Rightarrow> u8 list" where
  "htons n = [of_nat (n div 256), of_nat n]"

text \<open>\<^verbatim>\<open>memcpy(buf + pos, src, length src)\<close> on a buffer held as a list.\<close>

definition memcpy :: "u8 list \<Rightarrow> nat \<Rightarrow> u8 list \<Rightarrow> u8 list" where
  "memcpy buf pos src = take pos buf @ src @ drop (pos + length src) buf"

text \<open>\<^verbatim>\<open>memmove(buf + dst, buf + src, n)\<close>: the source bytes are read before any is written.\<close>

definition memmove :: "u8 list \<Rightarrow> nat \<Rightarrow> nat \<Rightarrow> nat \<Rightarrow> u8 list" where
  "memmove buf dst src n = memcpy buf dst (take n (drop src buf))"

text \<open>The bytes \<open>buf[pos .. pos + n)\<close>.\<close>

definition bytes_at :: "u8 list \<Rightarrow> nat \<Rightarrow> nat \<Rightarrow> u8 list" where
  "bytes_at buf pos n = take n (drop pos buf)"

text \<open>\<^verbatim>\<open>IN6_IS_ADDR_LINKLOCAL\<close>: the prefix fe80::/10.\<close>

definition IN6_IS_ADDR_LINKLOCAL :: "in6_addr \<Rightarrow> bool" where
  "IN6_IS_ADDR_LINKLOCAL a = (a ! 0 = 0xfe \<and> (a ! 1) AND 0xc0 = 0x80)"

definition IN6_IS_ADDR_UNSPECIFIED :: "in6_addr \<Rightarrow> bool" where
  "IN6_IS_ADDR_UNSPECIFIED a = (a = replicate 16 0)"

section \<open>DHCPv6 constants\<close>

text \<open>Modelled from the spec: the header \<^verbatim>\<open>dhcpv6.h\<close> is not among the sources. The spec
  names RFC 3315 as the wire format, gives SOLICIT as type 1, RELAY-FORW as type 12 and
  the hop count limit as 32; the other numbers are RFC 3315's (RFC 3646 for the DNS
  servers option).\<close>

definition DHCPV6_MSG_SOLICIT :: u8 where "DHCPV6_MSG_SOLICIT = 1"
definition DHCPV6_MSG_ADVERTISE :: u8 where "DHCPV6_MSG_ADVERTISE = 2"
definition DHCPV6_MSG_REQUEST :: u8 where "DHCPV6_MSG_REQUEST = 3"
definition DHCPV6_MSG_REBIND :: u8 where "DHCPV6_MSG_REBIND = 6"
definition DHCPV6_MSG_REPLY :: u8 where "DHCPV6_MSG_REPLY = 7"
definition DHCPV6_MSG_RECONFIGURE :: u8 where "DHCPV6_MSG_RECONFIGURE = 10"
definition DHCPV6_MSG_INFORMATION_REQUEST :: u8 where "DHCPV6_MSG_INFORMATION_REQUEST = 11"
definition DHCPV6_MSG_RELAY_FORW :: u8 where "DHCPV6_MSG_RELAY_FORW = 12"
definition DHCPV6_MSG_RELAY_REPL :: u8 where "DHCPV6_MSG_RELAY_REPL = 13"

definition DHCPV6_OPT_CLIENTID :: nat where "DHCPV6_OPT_CLIENTID = 1"
definition DHCPV6_OPT_SERVERID :: nat where "DHCPV6_OPT_SERVERID = 2"
definition DHCPV6_OPT_IA_NA :: nat where "DHCPV6_OPT_IA_NA = 3"
definition DHCPV6_OPT_RELAY_MSG :: nat where "DHCPV6_OPT_RELAY_MSG = 9"
definition DHCPV6_OPT_AUTH :: nat where "DHCPV6_OPT_AUTH = 11"
definition DHCPV6_OPT_STATUS :: nat where "DHCPV6_OPT_STATUS = 13"
definition DHCPV6_OPT_INTERFACE_ID :: nat where "DHCPV6_OPT_INTERFACE_ID = 18"
definition DHCPV6_OPT_DNS_SERVERS :: nat where "DHCPV6_OPT_DNS_SERVERS = 23"

definition DHCPV6_STATUS_NOADDRSAVAIL :: nat where "DHCPV6_STATUS_NOADDRSAVAIL = 2"
definition DHCPV6_HOP_COUNT_LIMIT :: nat where "DHCPV6_HOP_COUNT_LIMIT = 32"
definition DHCPV6_CLIENT_PORT :: nat where "DHCPV6_CLIENT_PORT = 546"
definition DHCPV6_SERVER_PORT :: nat where "DHCPV6_SERVER_PORT = 547"

section \<open>The DHCPv6 option walker\<close>

text \<open>Modelled from the spec: the macro \<^verbatim>\<open>dhcpv6_for_each_option(start, end, otype, olen, odata)\<close>
  is defined in \<^verbatim>\<open>dhcpv6.h\<close>, which is not among the sources. The spec: each option is
  (type:u16, length:u16, value:length bytes), big-endian; walk until start + 4 + length
  exceeds end; truncation ends the iteration without error. The cursor \<open>p\<close> and \<open>e\<close> are
  offsets into the buffer. The walk returns the buffer indices it reads and the options it
  hands to the loop body, each as (otype, olen, odata) with \<open>odata\<close> the offset of the value.\<close>

function dhcpv6_walk :: "u8 list \<Rightarrow> nat \<Rightarrow> nat \<Rightarrow> nat list \<times> (nat \<times> nat \<times> nat) list" where
  "dhcpv6_walk buf p e =
     (if p + 4 \<le> e then
        (if p + 4 + be16 buf (p + 2) \<le> e then
           (let r = dhcpv6_walk buf (p + 4 + be16 buf (p + 2)) e
            in ([p, p + 1, p + 2, p + 3] @ fst r, (be16 buf p, be16 buf (p + 2), p + 4) # snd r))
         else ([p, p + 1, p + 2, p + 3], []))
      else ([], []))"
  by pat_completeness auto
termination
  by (relation "measure (\<lambda>(buf, p, e). e - p)") auto

declare dhcpv6_walk.simps [simp del]

definition dhcpv6_options :: "u8 list \<Rightarrow> nat \<Rightarrow> nat \<Rightarrow> (nat \<times> nat \<times> nat) list" where
  "dhcpv6_options buf p e = snd (dhcpv6_walk buf p e)"

section \<open>Interfaces, configuration and the operating system\<close>

text \<open>\<^verbatim>\<open>struct relayd_interface\<close> and \<^verbatim>\<open>struct relayd_config\<close>, with the fields the sources
  read; \<open>slavecount\<close> is the length of \<open>slaves\<close>.\<close>

record relayd_interface =
  ifindex :: u32
  ifname :: string
  mac :: "u8 list"
  external :: bool

record relayd_config =
  enable_router_discovery_relay :: bool
  enable_router_discovery_server :: bool
  enable_dhcpv6_relay :: bool
  enable_dhcpv6_server :: bool
  compat_broken_dhcpv6 :: bool
  enable_ndp_relay :: bool
  enable_forwarding :: bool
  send_router_solicitation :: bool
  enable_route_learning :: bool
  force_address_assignment :: bool
  always_rewrite_dns :: bool
  always_announce_default_router :: bool
  deprecate_ula_if_public_avail :: bool
  dnsaddr :: in6_addr
  master :: relayd_interface
  slaves :: "relayd_interface list"

text \<open>A \<^verbatim>\<open>struct relayd_interface *\<close> into the configuration: \<^verbatim>\<open>&config->master\<close> or
  \<^verbatim>\<open>&config->slaves[i]\<close>.\<close>

datatype iface_ref = Master | Slave nat

definition iface_of :: "relayd_config \<Rightarrow> iface_ref \<Rightarrow> relayd_interface" where
  "iface_of cfg r = (case r of Master \<Rightarrow> master cfg | Slave i \<Rightarrow> slaves cfg ! i)"

text \<open>What the sources ask of the operating system: the list \<^verbatim>\<open>getifaddrs\<close> returns
  (\<open>None\<close> when it fails), each entry with its name and its \<^verbatim>\<open>ifa_addr\<close>; the addresses
  \<^verbatim>\<open>relayd_get_interface_addresses\<close> finds for an interface index (that function is not
  among the sources; the spec: global addresses of the interface); whether a UDP socket
  can be opened and bound to a port.\<close>

datatype ifa_addr = Ifa_null | Ifa_inet6 in6_addr | Ifa_other

record ifaddrs =
  ifa_name :: string
  ifa_addr :: ifa_addr

record relayd_ipaddr =
  addr :: in6_addr
  prefix :: nat
  preferred :: nat
  valid :: nat

record os_env =
  getifaddrs :: "ifaddrs list option"
  interface_addresses :: "u32 \<Rightarrow> relayd_ipaddr list"
  create_socket :: "nat \<Rightarrow> bool"

text \<open>\<^verbatim>\<open>relayd_get_interface_address\<close>: the first AF_INET6 address of the named interface,
  link-local ones skipped unless \<open>allow_linklocal\<close>; \<open>None\<close> is the return value -1.\<close>

fun first_interface_address :: "ifaddrs list \<Rightarrow> string \<Rightarrow> bool \<Rightarrow> in6_addr option" where
  "first_interface_address [] name allow_linklocal = None"
| "first_interface_address (c # cs) name allow_linklocal =
     (case ifa_addr c of
        Ifa_inet6 a \<Rightarrow>
          (if ifa_name c \<noteq> name then first_interface_address cs name allow_linklocal
           else if \<not> allow_linklocal \<and> IN6_IS_ADDR_LINKLOCAL a
             then first_interface_address cs name allow_linklocal
           else Some a)
      | _ \<Rightarrow> first_interface_address cs name allow_linklocal)"

definition relayd_get_interface_address :: "os_env \<Rightarrow> string \<Rightarrow> bool \<Rightarrow> in6_addr option" where
  "relayd_get_interface_address env name allow_linklocal =
     (case getifaddrs env of
        None \<Rightarrow> None
      | Some cs \<Rightarrow> first_interface_address cs name allow_linklocal)"

text \<open>A datagram handed to \<^verbatim>\<open>relayd_forward_packet\<close>: the socket, the destination address and
  port, the egress interface and the iovecs.\<close>

datatype sock = Dhcpv6_socket | Broken_dhcpv6_socket | Router_discovery_socket

record sent_packet =
  sp_socket :: sock
  sp_dest :: in6_addr
  sp_port :: nat
  sp_iface :: iface_ref
  sp_iov :: "u8 list list"

definition ALL_DHCPV6_RELAYS :: in6_addr where
  "ALL_DHCPV6_RELAYS = [0xff, 0x02, 0, 0, 0, 0, 0, 0, 0, 0, 0, 0, 0, 0x01, 0, 0x02]"

definition ALL_DHCPV6_SERVERS :: in6_addr where
  "ALL_DHCPV6_SERVERS = [0xff, 0x05, 0, 0, 0, 0, 0, 0, 0, 0, 0, 0, 0, 0x01, 0, 0x03]"

definition ALL_IPV6_NODES :: in6_addr where
  "ALL_IPV6_NODES = [0xff, 0x02, 0, 0, 0, 0, 0, 0, 0, 0, 0, 0, 0, 0, 0, 0x01]"

section \<open>Standard-mode relay, client to server\<close>

text \<open>\<^verbatim>\<open>struct dhcpv6_relay_forward_envelope\<close>, with the fields \<^verbatim>\<open>relay_client_request\<close> sets.
  \<open>relay_message_len\<close> is \<^verbatim>\<open>htons(len)\<close>, a 16-bit field.\<close>

record dhcpv6_relay_forward_envelope =
  msg_type :: u8
  hop_count :: u8
  link_address :: in6_addr
  peer_address :: in6_addr
  interface_id_type :: nat
  interface_id_len :: nat
  interface_id_data :: u32
  relay_message_type :: nat
  relay_message_len :: nat

text \<open>\<^verbatim>\<open>relay_client_request(source, data, len, iface)\<close>. \<open>data\<close> is the receive buffer and
  \<open>len\<close> the length of the datagram in it. The result is the two iovecs sent through the
  master to All_DHCP_Servers, port 547: the envelope and the first \<open>len\<close> bytes of the
  buffer; \<open>None\<close> when the function returns without sending. The buffer is \<^verbatim>\<open>const\<close>.\<close>

definition relay_client_request ::
  "relayd_config \<Rightarrow> os_env \<Rightarrow> in6_addr \<Rightarrow> u8 list \<Rightarrow> nat \<Rightarrow> iface_ref \<Rightarrow>
     (dhcpv6_relay_forward_envelope \<times> u8 list) option" where
  "relay_client_request cfg env source data len iface =
     (if data ! 0 = DHCPV6_MSG_RELAY_REPL \<or> data ! 0 = DHCPV6_MSG_RECONFIGURE \<or>
         data ! 0 = DHCPV6_MSG_REPLY \<or> data ! 0 = DHCPV6_MSG_ADVERTISE then None
      else if data ! 0 = DHCPV6_MSG_RELAY_FORW \<and> unat (data ! 1) \<ge> DHCPV6_HOP_COUNT_LIMIT
        then None
      else
        (let hdr = \<lparr> msg_type = DHCPV6_MSG_RELAY_FORW,
               hop_count = (if data ! 0 = DHCPV6_MSG_RELAY_FORW then data ! 1 + 1 else 0),
               link_address = replicate 16 0,
               peer_address = source,
               interface_id_type = DHCPV6_OPT_INTERFACE_ID,
               interface_id_len = 4,
               interface_id_data = ifindex (iface_of cfg iface),
               relay_message_type = DHCPV6_OPT_RELAY_MSG,
               relay_message_len = len mod 65536 \<rparr>
         in case relayd_get_interface_address env (ifname (iface_of cfg iface)) False of
              Some a \<Rightarrow> Some (hdr\<lparr>link_address := a\<rparr>, take len data)
            | None \<Rightarrow>
               (case relayd_get_interface_address env (ifname (master cfg)) False of
                  Some a \<Rightarrow> Some (hdr\<lparr>link_address := a\<rparr>, take len data)
                | None \<Rightarrow> None)))"

section \<open>Broken-server mode, client to server\<close>

text \<open>Modelled from the spec: \<^verbatim>\<open>struct dhcpv6_broken_duid\<close> and the constants
  \<^verbatim>\<open>DHCPV6_DUID_VENDOR\<close>, \<^verbatim>\<open>DHCPV6_ENT_NO\<close> and \<^verbatim>\<open>DHCPV6_ENT_TYPE\<close> are declared in \<^verbatim>\<open>dhcpv6.h\<close>,
  which is not among the sources. The spec lists the members (Enterprise-DUID type,
  enterprise number, subtype tag, ingress interface index, client link-local source address)
  and gives the Enterprise-DUID type as 2. The sources name the members \<open>duid_type\<close>,
  \<open>vendor\<close>, \<open>subtype\<close>, \<open>iface_index\<close> and \<open>link_addr\<close>, and the initialiser in
  \<^verbatim>\<open>relay_client_request_broken\<close> stores into them, in this order, an \<^verbatim>\<open>htons\<close> value (2 bytes),
  an \<^verbatim>\<open>htonl\<close> value (4 bytes), an \<^verbatim>\<open>htons\<close> value, the \<^verbatim>\<open>int\<close> interface index as it is in
  memory (4 bytes, little-endian on the mipsel target of the toolchain file) and a
  \<^verbatim>\<open>struct in6_addr\<close> (16 bytes). Where the members lie and how large the structure is
  depends on the declaration that is not there, so the layout is a parameter: the size of the
  structure, the offset of each member, and the bytes the structure holds where no member
  lies (its padding, if any). The enterprise number and the subtype tag are not in the spec
  either and are parameters too.\<close>

record dhcpv6_h =
  DHCPV6_ENT_NO :: nat
  DHCPV6_ENT_TYPE :: nat
  sizeof_broken_duid :: nat
  offsetof_duid_type :: nat
  offsetof_vendor :: nat
  offsetof_subtype :: nat
  offsetof_iface_index :: nat
  offsetof_link_addr :: nat
  broken_duid_padding :: "u8 list"

definition DHCPV6_DUID_VENDOR :: nat where "DHCPV6_DUID_VENDOR = 2"

definition htonl :: "nat \<Rightarrow> u8 list" where
  "htonl n = [of_nat (n div 16777216), of_nat (n div 65536), of_nat (n div 256), of_nat n]"

definition le32_bytes :: "u32 \<Rightarrow> u8 list" where
  "le32_bytes w = [ucast w, ucast (drop_bit 8 w), ucast (drop_bit 16 w), ucast (drop_bit 24 w)]"

definition le32_word :: "u8 list \<Rightarrow> u32" where
  "le32_word bs = ucast (bs ! 0) OR push_bit 8 (ucast (bs ! 1)) OR
     push_bit 16 (ucast (bs ! 2)) OR push_bit 24 (ucast (bs ! 3))"


text \<open>The bytes of the variable \<open>du\<close> that \<^verbatim>\<open>relay_client_request_broken\<close> initialises: the
  structure's size in bytes, with the five members stored at their offsets.\<close>

definition dhcpv6_broken_duid :: "dhcpv6_h \<Rightarrow> u32 \<Rightarrow> in6_addr \<Rightarrow> u8 list" where
  "dhcpv6_broken_duid h idx a =
     (let du0 = take (sizeof_broken_duid h)
                  (broken_duid_padding h @ replicate (sizeof_broken_duid h) 0);
          du1 = memcpy du0 (offsetof_duid_type h) (htons DHCPV6_DUID_VENDOR);
          du2 = memcpy du1 (offsetof_vendor h) (htonl (DHCPV6_ENT_NO h));
          du3 = memcpy du2 (offsetof_subtype h) (htons (DHCPV6_ENT_TYPE h));
          du4 = memcpy du3 (offsetof_iface_index h) (le32_bytes idx)
      in memcpy du4 (offsetof_link_addr h) (take 16 a))"

text \<open>The test \<^verbatim>\<open>du.duid_type == htons(DHCPV6_DUID_VENDOR) && du.vendor ==
  htonl(DHCPV6_ENT_NO) && du.subtype == htons(DHCPV6_ENT_TYPE)\<close> of \<^verbatim>\<open>relay_server_response\<close> on
  the bytes \<open>du\<close> copied out of a Client-ID option.\<close>

definition broken_duid_tagged :: "dhcpv6_h \<Rightarrow> u8 list \<Rightarrow> bool" where
  "broken_duid_tagged h du =
     (bytes_at du (offsetof_duid_type h) 2 = htons DHCPV6_DUID_VENDOR \<and>
      bytes_at du (offsetof_vendor h) 4 = htonl (DHCPV6_ENT_NO h) \<and>
      bytes_at du (offsetof_subtype h) 2 = htons (DHCPV6_ENT_TYPE h))"

text \<open>How a loop over the options ends: by a \<^verbatim>\<open>return\<close> in its body, by running to its end,
  or by a memory access outside the receive buffer (undefined behaviour in C).\<close>

datatype 'a ctl = Returned | Finished 'a | Fault

text \<open>The body of the option loop of \<^verbatim>\<open>relay_client_request_broken\<close> at a Client-ID option
  whose header is at offset \<open>p\<close>: the tail of the datagram is moved up by the size of the
  prefix, the prefix \<open>du\<close> is copied in front of the old DUID, and the low byte of the
  option length is set.\<close>

definition rewrite_clientid :: "u8 list \<Rightarrow> nat \<Rightarrow> nat \<Rightarrow> u8 list \<Rightarrow> u8 list" where
  "rewrite_clientid buf len p du =
     (let olen = be16 buf (p + 2);
          odata = p + 4;
          buf1 = memmove buf (odata + length du) odata (len - odata);
          buf2 = memcpy buf1 odata du
      in buf2[odata - 1 := of_nat (olen + length du)])"

text \<open>The option loop of \<^verbatim>\<open>relay_client_request_broken\<close>. The state is the buffer, \<open>len\<close> and
  \<open>rewrite_done\<close>; \<open>e\<close> is the end pointer, computed once before the loop and not adjusted
  when the datagram grows. The walker's increment reads the length field of the option it
  leaves from the buffer, after the body has run. \<^verbatim>\<open>len - (odata - data)\<close> is unsigned: the
  data moved would be out of the buffer if it wrapped or if \<open>len\<close> plus the prefix passed
  the buffer size.\<close>

function broken_rewrite_loop ::
  "u8 list \<Rightarrow> nat \<Rightarrow> u8 list \<Rightarrow> nat \<Rightarrow> bool \<Rightarrow> nat \<Rightarrow> (u8 list \<times> nat \<times> bool) ctl" where
  "broken_rewrite_loop du e buf len rewrite_done p =
     (if p + 4 \<le> e \<and> p + 4 + be16 buf (p + 2) \<le> e then
        (if be16 buf p = DHCPV6_OPT_AUTH then Returned
         else if be16 buf p \<noteq> DHCPV6_OPT_CLIENTID
           then broken_rewrite_loop du e buf len rewrite_done (p + 4 + be16 buf (p + 2))
         else if len < p + 4 \<or> length buf < len + length du then Fault
         else broken_rewrite_loop du e (rewrite_clientid buf len p du) (len + length du) True
                (p + 4 + be16 (rewrite_clientid buf len p du) (p + 2)))
      else Finished (buf, len, rewrite_done))"
  by pat_completeness auto
termination
  by (relation "measure (\<lambda>(du, e, buf, len, rewrite_done, p). e - p)") auto

declare broken_rewrite_loop.simps [simp del]

text \<open>\<^verbatim>\<open>relay_client_request_broken(source, data, len, iface)\<close>: the buffer as the function
  leaves it and the datagram it sends, if any. \<^verbatim>\<open>RELAYD_BUFFER_SIZE\<close> is the size of the
  receive buffer \<open>data\<close>.\<close>

definition relay_client_request_broken ::
  "dhcpv6_h \<Rightarrow> relayd_config \<Rightarrow> in6_addr \<Rightarrow> u8 list \<Rightarrow> nat \<Rightarrow> iface_ref \<Rightarrow>
     (u8 list \<times> sent_packet option) ctl" where
  "relay_client_request_broken h cfg source data len iface =
     (if data ! 0 = DHCPV6_MSG_RELAY_REPL \<or> data ! 0 = DHCPV6_MSG_RECONFIGURE \<or>
         data ! 0 = DHCPV6_MSG_REPLY \<or> data ! 0 = DHCPV6_MSG_ADVERTISE
        then Finished (data, None)
      else if len + sizeof_broken_duid h > length data then Finished (data, None)
      else
        (case broken_rewrite_loop (dhcpv6_broken_duid h (ifindex (iface_of cfg iface)) source)
                len data len False 4 of
           Returned \<Rightarrow> Returned
         | Fault \<Rightarrow> Fault
         | Finished (buf, len', rewrite_done) \<Rightarrow>
             if \<not> rewrite_done then Finished (buf, None)
             else Finished (buf, Some \<lparr> sp_socket = Broken_dhcpv6_socket,
                    sp_dest = ALL_DHCPV6_RELAYS, sp_port = DHCPV6_SERVER_PORT,
                    sp_iface = Master, sp_iov = [take len' buf] \<rparr>)))"

section \<open>Properties of the option walker\<close>

lemma be16_bound: "be16 buf i < 65536"
proof -
  have "unat (buf ! i) < 256" "unat (buf ! (i + 1)) < 256"
    using unsigned_less [of "buf ! i", where 'a = nat]
      unsigned_less [of "buf ! (i + 1)", where 'a = nat] by simp_all
  then show ?thesis by (simp add: be16_def)
qed

lemma dhcpv6_walk_reads: "i \<in> set (fst (dhcpv6_walk buf p e)) \<Longrightarrow> p \<le> i \<and> i < e"
proof (induction buf p e rule: dhcpv6_walk.induct)
  case (1 buf p e)
  show ?case
  proof (cases "p + 4 \<le> e \<and> p + 4 + be16 buf (p + 2) \<le> e")
    case True
    with "1.prems" have "i \<in> {p, p + 1, p + 2, p + 3} \<or>
        i \<in> set (fst (dhcpv6_walk buf (p + 4 + be16 buf (p + 2)) e))"
      by (subst (asm) dhcpv6_walk.simps) (auto simp: Let_def)
    with True "1.IH" show ?thesis by fastforce
  next
    case False
    with "1.prems" show ?thesis
      by (subst (asm) dhcpv6_walk.simps) (auto split: if_splits)
  qed
qed

lemma dhcpv6_walk_options:
  "(t, l, d) \<in> set (snd (dhcpv6_walk buf p e)) \<Longrightarrow> p + 4 \<le> d \<and> d + l \<le> e"
proof (induction buf p e rule: dhcpv6_walk.induct)
  case (1 buf p e)
  show ?case
  proof (cases "p + 4 \<le> e \<and> p + 4 + be16 buf (p + 2) \<le> e")
    case True
    with "1.prems" have "(t, l, d) = (be16 buf p, be16 buf (p + 2), p + 4) \<or>
        (t, l, d) \<in> set (snd (dhcpv6_walk buf (p + 4 + be16 buf (p + 2)) e))"
      by (subst (asm) dhcpv6_walk.simps) (auto simp: Let_def)
    with True "1.IH" show ?thesis by fastforce
  next
    case False
    with "1.prems" show ?thesis
      by (subst (asm) dhcpv6_walk.simps) (auto split: if_splits)
  qed
qed

lemma dhcpv6_options_bounds:
  "(t, l, d) \<in> set (dhcpv6_options buf p e) \<Longrightarrow> p + 4 \<le> d \<and> d + l \<le> e"
  unfolding dhcpv6_options_def by (rule dhcpv6_walk_options)

section \<open>Relay of server responses\<close>

text \<open>The option loop of the standard branch of \<^verbatim>\<open>relay_server_response\<close>: the state is
  \<open>ifaceidx\<close> and the payload (offset and length), \<open>None\<close> for the NULL pointer.\<close>

fun relay_reply_body ::
  "u8 list \<Rightarrow> nat \<times> nat \<times> nat \<Rightarrow> u32 \<times> (nat \<times> nat) option \<Rightarrow> u32 \<times> (nat \<times> nat) option" where
  "relay_reply_body buf (otype, olen, odata) (ifaceidx, payload) =
     (if otype = DHCPV6_OPT_INTERFACE_ID \<and> olen = 4
        then (le32_word (bytes_at buf odata 4), payload)
      else if otype = DHCPV6_OPT_RELAY_MSG then (ifaceidx, Some (odata, olen))
      else (ifaceidx, payload))"

text \<open>The body of the option loop of the broken-server branch at a Client-ID option that
  carries the prefix, its header at offset \<open>p\<close>: the low byte of the option length is set
  back and the tail of the datagram is moved down over the prefix. \<open>len\<close> is the length
  before \<^verbatim>\<open>len -= sizeof(du)\<close> and \<open>n\<close> is \<^verbatim>\<open>sizeof(du)\<close>.\<close>

definition unrewrite_clientid :: "u8 list \<Rightarrow> nat \<Rightarrow> nat \<Rightarrow> nat \<Rightarrow> u8 list" where
  "unrewrite_clientid buf len p n =
     (let olen = be16 buf (p + 2);
          odata = p + 4;
          buf1 = buf[odata - 1 := of_nat (olen - n)];
          len1 = len - n
      in memmove buf1 odata (odata + n) (len1 - odata))"

text \<open>The option loop of the broken-server branch: the state is the buffer, \<open>len\<close>,
  \<open>ifaceidx\<close>, the target address and the payload. \<open>e\<close> is the end pointer, computed once
  from the length received and not adjusted when the datagram shrinks.
  \<^verbatim>\<open>len -= sizeof(du)\<close> and \<^verbatim>\<open>len - (odata - data)\<close> are unsigned, and a wrap makes the move
  leave the buffer.\<close>

function broken_unrewrite_loop ::
  "dhcpv6_h \<Rightarrow> nat \<Rightarrow> u8 list \<Rightarrow> nat \<Rightarrow> u32 \<times> in6_addr \<times> (nat \<times> nat) option \<Rightarrow> nat \<Rightarrow>
     (u8 list \<times> u32 \<times> in6_addr \<times> (nat \<times> nat) option) ctl" where
  "broken_unrewrite_loop h e buf len st p =
     (if p + 4 \<le> e \<and> p + 4 + be16 buf (p + 2) \<le> e then
        (if be16 buf p = DHCPV6_OPT_AUTH then Returned
         else if be16 buf p \<noteq> DHCPV6_OPT_CLIENTID \<or>
                 be16 buf (p + 2) \<le> sizeof_broken_duid h \<or> be16 buf (p + 2) > 130
           then broken_unrewrite_loop h e buf len st (p + 4 + be16 buf (p + 2))
         else if broken_duid_tagged h (bytes_at buf (p + 4) (sizeof_broken_duid h)) then
           (if len < sizeof_broken_duid h + (p + 4) then Fault
            else broken_unrewrite_loop h e (unrewrite_clientid buf len p (sizeof_broken_duid h))
                   (len - sizeof_broken_duid h)
                   (le32_word (bytes_at buf (p + 4 + offsetof_iface_index h) 4),
                    bytes_at buf (p + 4 + offsetof_link_addr h) 16,
                    Some (0, len - sizeof_broken_duid h))
                   (p + 4 + be16 (unrewrite_clientid buf len p (sizeof_broken_duid h)) (p + 2)))
         else broken_unrewrite_loop h e buf len st (p + 4 + be16 buf (p + 2)))
      else Finished (buf, st))"
  by pat_completeness auto
termination
  by (relation "measure (\<lambda>(h, e, buf, len, st, p). e - p)") auto

declare broken_unrewrite_loop.simps [simp del]

text \<open>The loop that looks the interface index up among the slaves: the first match.\<close>

definition find_slave :: "relayd_config \<Rightarrow> u32 \<Rightarrow> nat option" where
  "find_slave cfg idx = find (\<lambda>i. ifindex (slaves cfg ! i) = idx) [0..<length (slaves cfg)]"

text \<open>The loop over the payload's options: \<open>rewrite_dns\<close>, \<open>dns_ptr\<close>, \<open>dns_count\<close> and
  \<open>is_authenticated\<close>.\<close>

fun dns_scan_body ::
  "relayd_config \<Rightarrow> u8 list \<Rightarrow> nat \<times> nat \<times> nat \<Rightarrow> bool \<times> nat option \<times> nat \<times> bool \<Rightarrow>
     bool \<times> nat option \<times> nat \<times> bool" where
  "dns_scan_body cfg buf (otype, olen, odata) (rewrite_dns, dns_ptr, dns_count, is_authenticated) =
     (if otype = DHCPV6_OPT_DNS_SERVERS \<and> olen \<ge> 16 then
        (always_rewrite_dns cfg \<or>
           list_ex (\<lambda>i. IN6_IS_ADDR_LINKLOCAL (bytes_at buf (odata + 16 * i) 16)) [0..<olen div 16],
         Some odata, olen div 16, is_authenticated)
      else if otype = DHCPV6_OPT_AUTH then (rewrite_dns, dns_ptr, dns_count, True)
      else (rewrite_dns, dns_ptr, dns_count, is_authenticated))"

text \<open>The address goes to \<^verbatim>\<open>dns_ptr[0]\<close> and is copied from there over the other entries.\<close>

definition rewrite_dns_servers :: "u8 list \<Rightarrow> nat \<Rightarrow> nat \<Rightarrow> in6_addr \<Rightarrow> u8 list" where
  "rewrite_dns_servers buf dns_ptr dns_count a =
     fold (\<lambda>i b. memmove b (dns_ptr + 16 * i) dns_ptr 16) [1..<dns_count]
       (memcpy buf dns_ptr (take 16 a))"

text \<open>The second half of \<^verbatim>\<open>relay_server_response\<close>, from the interface lookup on.\<close>

definition deliver_response ::
  "relayd_config \<Rightarrow> os_env \<Rightarrow> u8 list \<Rightarrow> u32 \<Rightarrow> in6_addr \<Rightarrow> (nat \<times> nat) option \<Rightarrow>
     sent_packet option" where
  "deliver_response cfg env buf ifaceidx target payload =
     (case find_slave cfg ifaceidx of
        None \<Rightarrow> None
      | Some i \<Rightarrow>
         (case payload of
            None \<Rightarrow> None
          | Some (payload_data, payload_len) \<Rightarrow>
              if payload_len < 4 then None
              else if buf ! payload_data = DHCPV6_MSG_RELAY_REPL then
                Some \<lparr> sp_socket = Dhcpv6_socket, sp_dest = target, sp_port = DHCPV6_SERVER_PORT,
                       sp_iface = Slave i, sp_iov = [bytes_at buf payload_data payload_len] \<rparr>
              else
                (case fold (dns_scan_body cfg buf)
                        (dhcpv6_options buf (payload_data + 4) (payload_data + payload_len))
                        (False, None, 0, False) of
                   (rewrite_dns, dns_ptr, dns_count, is_authenticated) \<Rightarrow>
                     (case dns_ptr of
                        Some ptr \<Rightarrow>
                          if rewrite_dns \<and> dns_count > 0 then
                            (if is_authenticated then None
                             else
                               (case relayd_get_interface_address env (ifname (slaves cfg ! i)) True of
                                  None \<Rightarrow> None
                                | Some a \<Rightarrow>
                                    Some \<lparr> sp_socket = Dhcpv6_socket, sp_dest = target,
                                      sp_port = DHCPV6_CLIENT_PORT, sp_iface = Slave i,
                                      sp_iov = [bytes_at (rewrite_dns_servers buf ptr dns_count a)
                                                  payload_data payload_len] \<rparr>))
                          else
                            Some \<lparr> sp_socket = Dhcpv6_socket, sp_dest = target,
                              sp_port = DHCPV6_CLIENT_PORT, sp_iface = Slave i,
                              sp_iov = [bytes_at buf payload_data payload_len] \<rparr>
                      | None \<Rightarrow>
                          Some \<lparr> sp_socket = Dhcpv6_socket, sp_dest = target,
                            sp_port = DHCPV6_CLIENT_PORT, sp_iface = Slave i,
                            sp_iov = [bytes_at buf payload_data payload_len] \<rparr>))))"

text \<open>\<^verbatim>\<open>relay_server_response(data, len)\<close>: the datagram sent, if any. The relay header is
  34 bytes: type, hop count, link address, peer address.\<close>

definition relay_server_response ::
  "dhcpv6_h \<Rightarrow> relayd_config \<Rightarrow> os_env \<Rightarrow> u8 list \<Rightarrow> nat \<Rightarrow> sent_packet option ctl" where
  "relay_server_response h cfg env data len =
     (if \<not> compat_broken_dhcpv6 cfg then
        (if len < 34 \<or> data ! 0 \<noteq> DHCPV6_MSG_RELAY_REPL then Finished None
         else
           (case fold (relay_reply_body data) (dhcpv6_options data 34 len) (0, None) of
              (ifaceidx, payload) \<Rightarrow>
                Finished (deliver_response cfg env data ifaceidx (bytes_at data 18 16) payload)))
      else
        (case broken_unrewrite_loop h len data len (0, replicate 16 0, None) 4 of
           Returned \<Rightarrow> Finished None
         | Fault \<Rightarrow> Fault
         | Finished (buf, ifaceidx, target, payload) \<Rightarrow>
             Finished (deliver_response cfg env buf ifaceidx target payload)))"

section \<open>The stateless mini-server\<close>

text \<open>The pointers and iovecs \<^verbatim>\<open>handle_nested_message\<close> sets: \<open>opts\<close>, \<open>opts_end\<close>, \<^verbatim>\<open>iov[0]\<close>
  and \<^verbatim>\<open>iov[3]\<close>; a base of \<open>None\<close> is NULL.\<close>

record nested_state =
  ns_opts :: nat
  ns_end :: nat
  iov0_base :: "nat option"
  iov0_len :: nat
  iov3_base :: "nat option"
  iov3_len :: nat

text \<open>A loop that returns at the first Relay-Message option.\<close>

definition find_relay_msg :: "u8 list \<Rightarrow> nat \<Rightarrow> nat \<Rightarrow> (nat \<times> nat \<times> nat) option" where
  "find_relay_msg buf p e =
     find (\<lambda>(otype, olen, odata). otype = DHCPV6_OPT_RELAY_MSG) (dhcpv6_options buf p e)"

lemma find_Some_set: "find P xs = Some x \<Longrightarrow> x \<in> set xs \<and> P x"
  by (induction xs) (auto split: if_splits)

lemma find_relay_msg_bounds:
  "find_relay_msg buf p e = Some (t, l, d) \<Longrightarrow> p + 4 \<le> d \<and> d + l \<le> e"
  unfolding find_relay_msg_def
  by (drule find_Some_set) (auto dest: dhcpv6_options_bounds)

text \<open>\<^verbatim>\<open>handle_nested_message(data, len, &opts, &end, iov)\<close>, with \<open>d\<close> the offset of \<open>data\<close>
  in the receive buffer.\<close>

function handle_nested_message :: "u8 list \<Rightarrow> nat \<Rightarrow> nat \<Rightarrow> nested_state \<Rightarrow> nested_state" where
  "handle_nested_message buf d len st =
     (let st1 = (if iov0_base st = None then st\<lparr>iov0_base := Some d\<rparr> else st) in
      if len < 4 then st1
      else if buf ! d \<noteq> DHCPV6_MSG_RELAY_FORW then
        st1\<lparr>iov0_len := d - (case iov0_base st1 of Some b \<Rightarrow> b | None \<Rightarrow> d),
            ns_opts := d + 4, ns_end := d + len\<rparr>
      else
        (case find_relay_msg buf (d + 34) (d + len) of
           None \<Rightarrow> st1
         | Some (otype, olen, odata) \<Rightarrow>
             handle_nested_message buf odata olen
               (st1\<lparr>iov3_base := Some (odata + olen),
                    iov3_len := (d + len) - (odata + olen)\<rparr>)))"
  by pat_completeness auto
termination
  by (relation "measure (\<lambda>(buf, d, len, st). len)")
    (auto dest!: find_relay_msg_bounds)

declare handle_nested_message.simps [simp del]

text \<open>\<^verbatim>\<open>update_nested_message(data, len, pdiff)\<close>: the buffer with every envelope turned into a
  RELAY-REPL and every Relay-Message length changed by \<open>pdiff\<close>. \<open>olen\<close> is a \<^verbatim>\<open>uint16_t\<close>,
  and \<^verbatim>\<open>olen - pdiff\<close> becomes the \<^verbatim>\<open>size_t len\<close> of the inner call (32 bits on the target).
  When that arithmetic wraps, the inner end pointer lies outside the receive buffer: the
  model stops there with \<open>Fault\<close>, as it does for an envelope that starts at the end of
  the buffer.\<close>

function update_nested_message :: "u8 list \<Rightarrow> nat \<Rightarrow> nat \<Rightarrow> int \<Rightarrow> u8 list ctl" where
  "update_nested_message buf d len pdiff =
     (if length buf \<le> d \<or> length buf < d + len then Fault
      else if buf ! d \<noteq> DHCPV6_MSG_RELAY_FORW then Finished buf
      else
        (case find_relay_msg (buf[d := DHCPV6_MSG_RELAY_REPL]) (d + 34) (d + len) of
           None \<Rightarrow> Finished (buf[d := DHCPV6_MSG_RELAY_REPL])
         | Some (otype, olen, odata) \<Rightarrow>
             (let olen' = nat ((int olen + pdiff) mod 65536);
                  buf2 = (buf[d := DHCPV6_MSG_RELAY_REPL])
                           [odata - 2 := of_nat (olen' div 256), odata - 1 := of_nat olen']
              in update_nested_message buf2 odata
                   (nat ((int olen' - pdiff) mod 4294967296)) pdiff)))"
  by pat_completeness auto
termination
  by (relation "measure (\<lambda>(buf, d, len, pdiff). length buf - d)")
    (auto dest!: find_relay_msg_bounds)

declare update_nested_message.simps [simp del]

text \<open>The option loop of \<^verbatim>\<open>handle_client_request\<close>. The state is \<^verbatim>\<open>dest.clientid_length\<close>,
  \<^verbatim>\<open>dest.clientid_buf\<close>, \<^verbatim>\<open>iov[1].iov_len\<close> and \<^verbatim>\<open>iov[2].iov_len\<close>; \<open>None\<close> is the
  \<^verbatim>\<open>return\<close> on a Server-ID that is not the server's (\<open>duid\<close>: the 10 bytes from
  \<^verbatim>\<open>dest.duid_type\<close> on).\<close>

fun client_options ::
  "u8 list \<Rightarrow> u8 list \<Rightarrow> (nat \<times> nat \<times> nat) list \<Rightarrow> nat \<times> u8 list \<times> nat \<times> nat \<Rightarrow>
     (nat \<times> u8 list \<times> nat \<times> nat) option" where
  "client_options duid data [] st = Some st"
| "client_options duid data ((otype, olen, odata) # os) (cid_len, cid_buf, iov1_len, iov2_len) =
     (if otype = DHCPV6_OPT_CLIENTID \<and> olen \<le> 130 then
        client_options duid data os
          (olen, memcpy cid_buf 0 (bytes_at data odata olen), iov1_len + (4 + olen), iov2_len)
      else if otype = DHCPV6_OPT_SERVERID then
        (if olen \<noteq> 10 \<or> bytes_at data odata olen \<noteq> duid then None
         else client_options duid data os (cid_len, cid_buf, iov1_len, iov2_len))
      else if otype = DHCPV6_OPT_IA_NA then
        client_options duid data os (cid_len, cid_buf, iov1_len, 6)
      else client_options duid data os (cid_len, cid_buf, iov1_len, iov2_len))"

text \<open>The packed reply \<open>dest\<close>, 172 bytes, and the status option \<open>stat\<close>, 6 bytes.\<close>

definition server_duid :: "u8 list \<Rightarrow> u8 list" where
  "server_duid m = htons 3 @ htons 1 @ take 6 m"

definition dest_bytes ::
  "u8 \<Rightarrow> u8 list \<Rightarrow> in6_addr \<Rightarrow> u8 list \<Rightarrow> nat \<Rightarrow> u8 list \<Rightarrow> u8 list" where
  "dest_bytes mtype tr_id a m cid_len cid_buf =
     [mtype] @ tr_id @ htons DHCPV6_OPT_DNS_SERVERS @ htons 16 @ take 16 a @
     htons DHCPV6_OPT_SERVERID @ htons 10 @ server_duid m @
     htons DHCPV6_OPT_CLIENTID @ htons cid_len @ cid_buf"

definition stat_bytes :: "u8 list" where
  "stat_bytes = htons DHCPV6_OPT_STATUS @ htons 2 @ htons DHCPV6_STATUS_NOADDRSAVAIL"

text \<open>\<^verbatim>\<open>handle_client_request(addr, data, len, iface)\<close>: the reply sent to the sender \<open>peer\<close>
  (address and port), if any. \<^verbatim>\<open>iov[1]\<close> is the start of \<open>dest\<close>; a length beyond the
  172 bytes of \<open>dest\<close> would send what lies behind it in memory.\<close>

definition handle_client_request ::
  "relayd_config \<Rightarrow> os_env \<Rightarrow> in6_addr \<times> nat \<Rightarrow> u8 list \<Rightarrow> nat \<Rightarrow> iface_ref \<Rightarrow>
     sent_packet option ctl" where
  "handle_client_request cfg env peer data len iface =
     (if len < 4 then Finished None
      else
        (let st0 = \<lparr> ns_opts = 4, ns_end = len, iov0_base = None, iov0_len = 0,
                     iov3_base = None, iov3_len = 0 \<rparr>;
             st = (if data ! 0 = DHCPV6_MSG_RELAY_FORW
                   then handle_nested_message data 0 len st0 else st0);
             opts = ns_opts st;
             opts_end = ns_end st
         in if data ! (opts - 4) \<noteq> DHCPV6_MSG_SOLICIT \<and> data ! (opts - 4) = DHCPV6_MSG_REBIND
            then Finished None
            else
              (case client_options (server_duid (mac (iface_of cfg iface))) data
                      (dhcpv6_options data opts opts_end) (0, replicate 130 0, 38, 0) of
                 None \<Rightarrow> Finished None
               | Some (cid_len, cid_buf, iov1_len, iov2_len) \<Rightarrow>
                   (case (if iov0_len st > 0
                          then update_nested_message data 0 len
                                 (int (iov1_len + iov2_len) - (4 + int opts_end - int opts))
                          else Finished data) of
                      Finished data' \<Rightarrow>
                        (case relayd_get_interface_address env (ifname (iface_of cfg iface)) True of
                           None \<Rightarrow> Finished None
                         | Some a \<Rightarrow>
                             if iov1_len > 172 then Fault
                             else Finished (Some
                               \<lparr> sp_socket = Dhcpv6_socket, sp_dest = fst peer, sp_port = snd peer,
                                 sp_iface = iface,
                                 sp_iov =
                                   [bytes_at data' (case iov0_base st of Some b \<Rightarrow> b | None \<Rightarrow> 0)
                                      (iov0_len st),
                                    take iov1_len
                                      (dest_bytes
                                         (if data ! (opts - 4) = DHCPV6_MSG_SOLICIT
                                          then DHCPV6_MSG_ADVERTISE else DHCPV6_MSG_REPLY)
                                         (bytes_at data 1 3) a (mac (iface_of cfg iface))
                                         cid_len cid_buf),
                                    take iov2_len stat_bytes,
                                    (case iov3_base st of
                                       Some b \<Rightarrow> bytes_at data' b (iov3_len st)
                                     | None \<Rightarrow> [])] \<rparr>))
                    | _ \<Rightarrow> Fault))))"

section \<open>Dispatch of DHCPv6 datagrams\<close>

text \<open>What ran on a datagram, with what it did.\<close>

datatype dhcpv6_result =
    Server_response "sent_packet option ctl"
  | Client_request "(dhcpv6_relay_forward_envelope \<times> u8 list) option"
  | Client_request_broken "(u8 list \<times> sent_packet option) ctl"
  | Mini_server "sent_packet option ctl"

text \<open>\<^verbatim>\<open>handle_dhcpv6(addr, data, len, iface)\<close>.\<close>

definition handle_dhcpv6 ::
  "dhcpv6_h \<Rightarrow> relayd_config \<Rightarrow> os_env \<Rightarrow> in6_addr \<times> nat \<Rightarrow> u8 list \<Rightarrow> nat \<Rightarrow> iface_ref \<Rightarrow>
     dhcpv6_result" where
  "handle_dhcpv6 h cfg env peer data len iface =
     (if iface = Master then Server_response (relay_server_response h cfg env data len)
      else if \<not> compat_broken_dhcpv6 cfg
        then Client_request (relay_client_request cfg env (fst peer) data len iface)
      else Client_request_broken (relay_client_request_broken h cfg (fst peer) data len iface))"

text \<open>The \<^verbatim>\<open>handle_dgram\<close> field of an event, and \<^verbatim>\<open>init_dhcpv6_relay\<close>: the events it
  registers with their handlers, \<open>None\<close> for the return value -1.\<close>

datatype dgram_handler = Handle_dhcpv6 | Handle_client_request

definition init_dhcpv6_relay ::
  "relayd_config \<Rightarrow> os_env \<Rightarrow> (sock \<times> dgram_handler) list option" where
  "init_dhcpv6_relay cfg env =
     (if \<not> enable_dhcpv6_relay cfg \<or> length (slaves cfg) < 1 then Some []
      else if \<not> create_socket env DHCPV6_SERVER_PORT then None
      else
        (let ev = (Dhcpv6_socket,
                   if enable_dhcpv6_server cfg then Handle_client_request else Handle_dhcpv6)
         in if compat_broken_dhcpv6 cfg \<and> enable_dhcpv6_relay cfg then
              (if \<not> create_socket env DHCPV6_CLIENT_PORT then None
               else Some [ev, (Broken_dhcpv6_socket, Handle_dhcpv6)])
            else Some [ev]))"

text \<open>\<^verbatim>\<open>relayd_receive_packets\<close> calls the handler of the event whose socket is readable. The
  DHCPv6 engine on one datagram: \<open>None\<close> when the engine did not start or has no event for
  the socket.\<close>

definition dhcpv6_engine ::
  "dhcpv6_h \<Rightarrow> relayd_config \<Rightarrow> os_env \<Rightarrow> sock \<Rightarrow> in6_addr \<times> nat \<Rightarrow> u8 list \<Rightarrow> nat \<Rightarrow>
     iface_ref \<Rightarrow> dhcpv6_result option" where
  "dhcpv6_engine h cfg env s peer data len iface =
     (case init_dhcpv6_relay cfg env of
        None \<Rightarrow> None
      | Some evs \<Rightarrow>
         (case map_of evs s of
            None \<Rightarrow> None
          | Some Handle_dhcpv6 \<Rightarrow> Some (handle_dhcpv6 h cfg env peer data len iface)
          | Some Handle_client_request \<Rightarrow>
              Some (Mini_server (handle_client_request cfg env peer data len iface))))"

section \<open>Router Discovery: relaying Router Advertisements\<close>

text \<open>Modelled from the spec: the macro \<^verbatim>\<open>icmpv6_for_each_option(opt, start, end)\<close>,
  \<^verbatim>\<open>struct icmpv6_opt\<close> and the constants \<^verbatim>\<open>ND_OPT_RECURSIVE_DNS\<close> and \<^verbatim>\<open>ND_RA_FLAG_PROXY\<close> are
  declared in \<^verbatim>\<open>router.h\<close>, which is not among the sources. The spec names the RFC 4861
  option format (type:u8, length:u8 in units of 8 bytes, then the value), RFC 8106 for the
  Recursive DNS Server option (type 25) and RFC 4389 for the proxy bit (0x04). The sources
  use \<^verbatim>\<open>struct icmpv6_opt\<close> as an 8-byte record: \<open>type\<close>, \<open>len\<close> and 6 bytes of \<open>data\<close>. The
  walk hands out (type, len, offset of the option) while a whole record and the whole
  option lie before the end; a length of 0 ends it.\<close>

function icmpv6_options :: "u8 list \<Rightarrow> nat \<Rightarrow> nat \<Rightarrow> (nat \<times> nat \<times> nat) list" where
  "icmpv6_options buf p e =
     (if p + 8 \<le> e \<and> 0 < unat (buf ! (p + 1)) \<and> p + 8 * unat (buf ! (p + 1)) \<le> e then
        (unat (buf ! p), unat (buf ! (p + 1)), p) # icmpv6_options buf (p + 8 * unat (buf ! (p + 1))) e
      else [])"
  by pat_completeness auto
termination
  by (relation "measure (\<lambda>(buf, p, e). e - p)") auto

declare icmpv6_options.simps [simp del]

definition ND_OPT_SOURCE_LINKADDR :: nat where "ND_OPT_SOURCE_LINKADDR = 1"
definition ND_OPT_RECURSIVE_DNS :: nat where "ND_OPT_RECURSIVE_DNS = 25"
definition ND_RA_FLAG_OTHER :: u8 where "ND_RA_FLAG_OTHER = 0x40"
definition ND_RA_FLAG_PROXY :: u8 where "ND_RA_FLAG_PROXY = 0x04"

text \<open>The option loop of \<^verbatim>\<open>forward_router_advertisement\<close>: \<open>mac_ptr\<close>, \<open>dns_ptr\<close> and
  \<open>dns_count\<close>. \<^verbatim>\<open>opt->data\<close> is at offset 2 of the option, \<^verbatim>\<open>&opt->data[6]\<close> at offset 8.\<close>

fun ra_scan_body ::
  "nat \<times> nat \<times> nat \<Rightarrow> nat option \<times> nat option \<times> nat \<Rightarrow> nat option \<times> nat option \<times> nat" where
  "ra_scan_body (otype, olen, p) (mac_ptr, dns_ptr, dns_count) =
     (if otype = ND_OPT_SOURCE_LINKADDR then (Some (p + 2), dns_ptr, dns_count)
      else if otype = ND_OPT_RECURSIVE_DNS \<and> olen > 1
        then (mac_ptr, Some (p + 8), (olen - 1) div 2)
      else (mac_ptr, dns_ptr, dns_count))"

text \<open>The address the DNS entries are rewritten to for a slave: the configured one, or the
  first address \<^verbatim>\<open>relayd_get_interface_addresses\<close> finds; \<open>None\<close> is \<^verbatim>\<open>continue\<close>.\<close>

definition ra_rewrite_address :: "relayd_config \<Rightarrow> os_env \<Rightarrow> relayd_interface \<Rightarrow> in6_addr option" where
  "ra_rewrite_address cfg env s =
     (if \<not> IN6_IS_ADDR_UNSPECIFIED (dnsaddr cfg) then Some (dnsaddr cfg)
      else (case interface_addresses env (ifindex s) of
              [] \<Rightarrow> None
            | a # _ \<Rightarrow> Some (addr a)))"

definition ra_packet :: "nat \<Rightarrow> u8 list \<Rightarrow> nat \<Rightarrow> sent_packet" where
  "ra_packet i buf len =
     \<lparr> sp_socket = Router_discovery_socket, sp_dest = ALL_IPV6_NODES, sp_port = 0,
       sp_iface = Slave i, sp_iov = [take len buf] \<rparr>"

text \<open>The loop over the slaves, from slave \<open>i\<close> on; \<open>ss\<close> are the slaves left. The buffer is
  rewritten in place and carried from one slave to the next.\<close>

fun forward_to_slaves ::
  "relayd_config \<Rightarrow> os_env \<Rightarrow> nat option \<Rightarrow> nat option \<Rightarrow> nat \<Rightarrow> nat \<Rightarrow> u8 list \<Rightarrow> nat \<Rightarrow>
     relayd_interface list \<Rightarrow> sent_packet list" where
  "forward_to_slaves cfg env mac_ptr dns_ptr dns_count len buf i [] = []"
| "forward_to_slaves cfg env mac_ptr dns_ptr dns_count len buf i (s # ss) =
     (let buf1 = (case mac_ptr of None \<Rightarrow> buf | Some m \<Rightarrow> memcpy buf m (take 6 (mac s)))
      in case dns_ptr of
           Some d \<Rightarrow>
             if always_rewrite_dns cfg \<and> dns_count > 0 then
               (case ra_rewrite_address cfg env s of
                  None \<Rightarrow> forward_to_slaves cfg env mac_ptr dns_ptr dns_count len buf1 (i + 1) ss
                | Some a \<Rightarrow>
                    (let buf2 = fold (\<lambda>k b. memcpy b (d + 16 * k) (take 16 a)) [0..<dns_count] buf1
                     in ra_packet i buf2 len #
                        forward_to_slaves cfg env mac_ptr dns_ptr dns_count len buf2 (i + 1) ss))
             else ra_packet i buf1 len #
                    forward_to_slaves cfg env mac_ptr dns_ptr dns_count len buf1 (i + 1) ss
         | None \<Rightarrow> ra_packet i buf1 len #
                    forward_to_slaves cfg env mac_ptr dns_ptr dns_count len buf1 (i + 1) ss)"

text \<open>\<^verbatim>\<open>forward_router_advertisement(data, len)\<close>: the datagrams sent, in order. The options
  start behind the 16 bytes of \<^verbatim>\<open>struct nd_router_advert\<close>; the flags are byte 5.\<close>

definition forward_router_advertisement ::
  "relayd_config \<Rightarrow> os_env \<Rightarrow> u8 list \<Rightarrow> nat \<Rightarrow> sent_packet list" where
  "forward_router_advertisement cfg env data len =
     (case fold ra_scan_body (icmpv6_options data 16 len) (None, None, 0) of
        (mac_ptr, dns_ptr, dns_count) \<Rightarrow>
          (let data1 = (if enable_dhcpv6_server cfg
                        then data[5 := data ! 5 OR ND_RA_FLAG_OTHER] else data);
               data2 = data1[5 := data1 ! 5 OR ND_RA_FLAG_PROXY]
           in forward_to_slaves cfg env mac_ptr dns_ptr dns_count len data2 0 (slaves cfg)))"

section \<open>Shutdown\<close>

text \<open>What the shutdown code does, as a list of events: a sysctl write, the call of
  \<^verbatim>\<open>deinit_ndp_proxy\<close> (of the NDP engine, not among the sources), freeing the slaves, and a
  call \<^verbatim>\<open>send_router_advert(&config->slaves[i].timer_rs)\<close> with the value of \<open>in_shutdown\<close>
  at the call. With \<open>in_shutdown\<close> set, \<^verbatim>\<open>send_router_advert\<close> neither looks for a default
  route nor reads addresses, so the Router Advertisement it sends has router lifetime 0.\<close>

datatype shutdown_event =
    Sysctl string string string
  | Deinit_ndp_proxy
  | Free_slaves
  | Send_router_advert nat bool

text \<open>\<^verbatim>\<open>deinit_router_discovery_relay()\<close>.\<close>

definition deinit_router_discovery_relay :: "relayd_config \<Rightarrow> shutdown_event list" where
  "deinit_router_discovery_relay cfg =
     (if enable_router_discovery_server cfg
      then map (\<lambda>i. Send_router_advert i True) [0..<length (slaves cfg)] else []) @
     (if enable_router_discovery_relay cfg \<and> \<not> enable_router_discovery_server cfg \<and>
         force_address_assignment cfg
      then map (\<lambda>i. Sysctl (ifname (slaves cfg ! i)) ''accept_ra'' ''2'') [0..<length (slaves cfg)]
      else [])"

text \<open>\<^verbatim>\<open>main\<close>, from the end of the event loop to \<^verbatim>\<open>return 0\<close>.\<close>

definition main_after_loop :: "relayd_config \<Rightarrow> shutdown_event list" where
  "main_after_loop cfg =
     (if enable_forwarding cfg then [Sysctl ''all'' ''forwarding'' ''0''] else []) @
     [Deinit_ndp_proxy, Free_slaves]"

definition is_router_advert :: "shutdown_event \<Rightarrow> bool" where
  "is_router_advert ev = (case ev of Send_router_advert i b \<Rightarrow> True | _ \<Rightarrow> False)"

section \<open>Well-formed addresses\<close>

text \<open>Every address \<^verbatim>\<open>getifaddrs\<close> returns is 16 bytes long, and what it means that an
  address is one of the named interface.\<close>

definition addresses_wellformed :: "os_env \<Rightarrow> bool" where
  "addresses_wellformed env =
     (case getifaddrs env of
        None \<Rightarrow> True
      | Some cs \<Rightarrow> list_all (\<lambda>c. case ifa_addr c of Ifa_inet6 a \<Rightarrow> length a = 16 | _ \<Rightarrow> True) cs)"

definition address_of_interface :: "os_env \<Rightarrow> string \<Rightarrow> in6_addr \<Rightarrow> bool" where
  "address_of_interface env name a =
     (case getifaddrs env of
        None \<Rightarrow> False
      | Some cs \<Rightarrow> list_ex (\<lambda>c. ifa_name c = name \<and> ifa_addr c = Ifa_inet6 a) cs)"

section \<open>What a request carries\<close>

text \<open>An option the walker hands out is a Client-ID; an option is no Server-ID, or it is a
  Server-ID equal to the server's DUID.\<close>

definition is_clientid :: "nat \<times> nat \<times> nat \<Rightarrow> bool" where
  "is_clientid x = (fst x = DHCPV6_OPT_CLIENTID)"

definition serverid_ok :: "u8 list \<Rightarrow> u8 list \<Rightarrow> nat \<times> nat \<times> nat \<Rightarrow> bool" where
  "serverid_ok duid data x =
     (case x of (t, l, d) \<Rightarrow> t \<noteq> DHCPV6_OPT_SERVERID \<or> (l = 10 \<and> bytes_at data d l = duid))"

section \<open>What the forwarding of a Router Advertisement may touch\<close>

text \<open>An option is a source link-layer address option; a slave for which the loop body
  reaches \<^verbatim>\<open>relayd_forward_packet\<close> (no DNS rewrite is due, or an address to rewrite to is
  found); the offsets the function writes to: the flags byte, the 6 bytes at \<open>mac_ptr\<close>
  and, only if \<open>always_rewrite_dns\<close> is set, the \<open>dns_count\<close> addresses at \<open>dns_ptr\<close>.\<close>

definition is_source_lladdr :: "nat \<times> nat \<times> nat \<Rightarrow> bool" where
  "is_source_lladdr x = (fst x = ND_OPT_SOURCE_LINKADDR)"

definition ra_can_comply ::
  "relayd_config \<Rightarrow> os_env \<Rightarrow> nat option \<Rightarrow> nat \<Rightarrow> relayd_interface \<Rightarrow> bool" where
  "ra_can_comply cfg env dns_ptr dns_count s =
     (\<not> (always_rewrite_dns cfg \<and> dns_ptr \<noteq> None \<and> dns_count > 0) \<or>
      ra_rewrite_address cfg env s \<noteq> None)"

definition ra_written ::
  "relayd_config \<Rightarrow> nat option \<Rightarrow> nat option \<Rightarrow> nat \<Rightarrow> nat \<Rightarrow> bool" where
  "ra_written cfg mac_ptr dns_ptr dns_count j =
     (j = 5 \<or> (case mac_ptr of Some m \<Rightarrow> m \<le> j \<and> j < m + 6 | None \<Rightarrow> False) \<or>
      (always_rewrite_dns cfg \<and>
       (case dns_ptr of Some d \<Rightarrow> d \<le> j \<and> j < d + 16 * dns_count | None \<Rightarrow> False)))"

section \<open>Messages with a single Client-ID option\<close>

text \<open>The options from offset \<open>p\<close> up to offset \<open>q\<close> are complete options before \<open>e\<close>, none
  of them a Client-ID or an Authentication option, and an option starts at \<open>q\<close>.\<close>

function options_skipped :: "u8 list \<Rightarrow> nat \<Rightarrow> nat \<Rightarrow> nat \<Rightarrow> bool" where
  "options_skipped buf p q e =
     (if p = q then True
      else if p < q \<and> p + 4 \<le> e \<and> p + 4 + be16 buf (p + 2) \<le> e \<and>
              be16 buf p \<noteq> DHCPV6_OPT_AUTH \<and> be16 buf p \<noteq> DHCPV6_OPT_CLIENTID
        then options_skipped buf (p + 4 + be16 buf (p + 2)) q e
      else False)"
  by pat_completeness auto
termination
  by (relation "measure (\<lambda>(buf, p, q, e). q - p)") auto

declare options_skipped.simps [simp del]






section \<open>A small network for the examples\<close>

text \<open>A master \<open>eth0\<close> and one slave \<open>lan0\<close>; the slave has a link-local address first and a
  global address second.\<close>

definition example_master :: relayd_interface where
  "example_master = \<lparr> ifindex = 2, ifname = ''eth0'', mac = [0xaa, 0xbb, 0xcc, 0xdd, 0xee, 0xff],
     external = False \<rparr>"

definition example_slave :: relayd_interface where
  "example_slave = \<lparr> ifindex = 3, ifname = ''lan0'', mac = [0x11, 0x22, 0x33, 0x44, 0x55, 0x66],
     external = False \<rparr>"

definition example_config :: relayd_config where
  "example_config = \<lparr> enable_router_discovery_relay = True,
     enable_router_discovery_server = False, enable_dhcpv6_relay = True,
     enable_dhcpv6_server = False, compat_broken_dhcpv6 = False, enable_ndp_relay = False,
     enable_forwarding = False, send_router_solicitation = False,
     enable_route_learning = False, force_address_assignment = False,
     always_rewrite_dns = False, always_announce_default_router = False,
     deprecate_ula_if_public_avail = False, dnsaddr = replicate 16 0,
     master = example_master, slaves = [example_slave] \<rparr>"

definition example_linklocal :: in6_addr where
  "example_linklocal = [0xfe, 0x80, 0, 0, 0, 0, 0, 0, 0, 0, 0, 0, 0, 0, 0, 1]"

definition example_global :: in6_addr where
  "example_global = [0x20, 0x01, 0x0d, 0xb8, 0, 1, 0, 0, 0, 0, 0, 0, 0, 0, 0x12, 0x34]"

definition example_uplink :: in6_addr where
  "example_uplink = [0x20, 0x01, 0x0d, 0xb8, 0, 0, 0, 0, 0, 0, 0, 0, 0, 0, 0, 0x02]"

definition example_client :: in6_addr where
  "example_client = [0xfe, 0x80, 0, 0, 0, 0, 0, 0, 0, 0, 0, 0, 0, 0, 0, 0x99]"

definition example_env :: os_env where
  "example_env = \<lparr> getifaddrs = Some [\<lparr> ifa_name = ''eth0'', ifa_addr = Ifa_other \<rparr>,
       \<lparr> ifa_name = ''eth0'', ifa_addr = Ifa_inet6 example_uplink \<rparr>,
       \<lparr> ifa_name = ''lan0'', ifa_addr = Ifa_inet6 example_linklocal \<rparr>,
       \<lparr> ifa_name = ''lan0'', ifa_addr = Ifa_inet6 example_global \<rparr>],
     interface_addresses = (\<lambda>i. if i = 3 then [\<lparr> addr = example_global, prefix = 64,
        preferred = 3600, valid = 7200 \<rparr>] else []),
     create_socket = (\<lambda>port. True) \<rparr>"

definition example_h :: dhcpv6_h where
  "example_h = \<lparr> DHCPV6_ENT_NO = 30462, DHCPV6_ENT_TYPE = 1, sizeof_broken_duid = 28,
     offsetof_duid_type = 0, offsetof_vendor = 2, offsetof_subtype = 6,
     offsetof_iface_index = 8, offsetof_link_addr = 12, broken_duid_padding = [] \<rparr>"

definition example_server_config :: relayd_config where
  "example_server_config = example_config\<lparr> enable_dhcpv6_server := True \<rparr>"

text \<open>A RELAY-REPL from the server: Interface-ID 3 (the slave) and a Relay-Message holding
  a REPLY with one DNS server, the link-local fe80::53.\<close>

definition example_relay_reply :: "u8 list" where
  "example_relay_reply =
     [13, 0,
      0, 0, 0, 0, 0, 0, 0, 0, 0, 0, 0, 0, 0, 0, 0, 0,
      0xfe, 0x80, 0, 0, 0, 0, 0, 0, 0, 0, 0, 0, 0, 0, 0, 0x99,
      0, 18, 0, 4, 3, 0, 0, 0,
      0, 9, 0, 24,
      7, 0x0a, 0x0b, 0x0c,
      0, 23, 0, 16,
      0xfe, 0x80, 0, 0, 0, 0, 0, 0, 0, 0, 0, 0, 0, 0, 0, 0x53]"

text \<open>A SOLICIT with the 8-byte Client-ID 01 02 03 04 05 06 07 08.\<close>

definition example_solicit :: "u8 list" where
  "example_solicit = [1, 0x0a, 0x0b, 0x0c, 0, 1, 0, 8, 1, 2, 3, 4, 5, 6, 7, 8]"

text \<open>A second slave \<open>lan1\<close> without any address, a configuration with both slaves and
  always-rewrite-dns, a Router Advertisement with a source link-layer address option
  aa:bb:cc:dd:ee:ff and one RDNSS entry, and one with two source link-layer address
  options.\<close>

definition example_slave_noaddr :: relayd_interface where
  "example_slave_noaddr = \<lparr> ifindex = 4, ifname = ''lan1'',
     mac = [0x77, 0x88, 0x99, 0xaa, 0xbb, 0xcc], external = False \<rparr>"

definition example_two_slaves_config :: relayd_config where
  "example_two_slaves_config = example_config\<lparr> always_rewrite_dns := True,
     slaves := [example_slave_noaddr, example_slave] \<rparr>"

definition example_ra :: "u8 list" where
  "example_ra =
     [134, 0, 0, 0, 64, 0, 7, 8, 0, 0, 0, 0, 0, 0, 0, 0,
      1, 1, 0xaa, 0xbb, 0xcc, 0xdd, 0xee, 0xff,
      25, 3, 0, 0, 0, 0, 0x0e, 0x10,
      0x20, 0x01, 0x0d, 0xb8, 0, 1, 0, 0, 0, 0, 0, 0, 0, 0, 0, 1]"

definition example_ra_two_lladdr :: "u8 list" where
  "example_ra_two_lladdr =
     [134, 0, 0, 0, 64, 0, 7, 8, 0, 0, 0, 0, 0, 0, 0, 0,
      1, 1, 0xaa, 0xbb, 0xcc, 0xdd, 0xee, 0xff,
      1, 1, 0xaa, 0xbb, 0xcc, 0xdd, 0xee, 0xff]"



lemmas example_defs = example_master_def example_slave_def example_config_def
  example_linklocal_def example_global_def example_uplink_def example_client_def example_env_def example_h_def
  example_server_config_def example_relay_reply_def

lemmas msg_defs = DHCPV6_MSG_SOLICIT_def DHCPV6_MSG_ADVERTISE_def DHCPV6_MSG_REQUEST_def
  DHCPV6_MSG_REBIND_def DHCPV6_MSG_REPLY_def DHCPV6_MSG_RECONFIGURE_def
  DHCPV6_MSG_INFORMATION_REQUEST_def DHCPV6_MSG_RELAY_FORW_def DHCPV6_MSG_RELAY_REPL_def

lemmas opt_defs = DHCPV6_OPT_CLIENTID_def DHCPV6_OPT_SERVERID_def DHCPV6_OPT_IA_NA_def
  DHCPV6_OPT_RELAY_MSG_def DHCPV6_OPT_AUTH_def DHCPV6_OPT_STATUS_def
  DHCPV6_OPT_INTERFACE_ID_def DHCPV6_OPT_DNS_SERVERS_def

section \<open>Buffers and words\<close>

lemma memcpy_length: "pos + length src \<le> length buf \<Longrightarrow> length (memcpy buf pos src) = length buf"
  by (simp add: memcpy_def)

lemma memcpy_nth:
  "pos + length src \<le> length buf \<Longrightarrow>
   memcpy buf pos src ! i =
     (if pos \<le> i \<and> i < pos + length src then src ! (i - pos) else buf ! i)"
  by (auto simp: memcpy_def nth_append)

lemma bytes_at_length: "pos + n \<le> length buf \<Longrightarrow> length (bytes_at buf pos n) = n"
  by (simp add: bytes_at_def)

lemma bytes_at_nth: "i < n \<Longrightarrow> pos + n \<le> length buf \<Longrightarrow> bytes_at buf pos n ! i = buf ! (pos + i)"
  by (simp add: bytes_at_def)

lemma bytes_at_eqI:
  "pos + n \<le> length buf \<Longrightarrow> length xs = n \<Longrightarrow> (\<And>i. i < n \<Longrightarrow> buf ! (pos + i) = xs ! i) \<Longrightarrow>
   bytes_at buf pos n = xs"
  by (rule nth_equalityI) (simp_all add: bytes_at_length bytes_at_nth)

lemma memmove_length:
  "dst + n \<le> length buf \<Longrightarrow> src + n \<le> length buf \<Longrightarrow> length (memmove buf dst src n) = length buf"
  by (simp add: memmove_def memcpy_length)

lemma memmove_nth:
  "dst + n \<le> length buf \<Longrightarrow> src + n \<le> length buf \<Longrightarrow>
   memmove buf dst src n ! i =
     (if dst \<le> i \<and> i < dst + n then buf ! (src + (i - dst)) else buf ! i)"
  by (auto simp: memmove_def memcpy_nth add.commute)


section \<open>Facts about the DHCPv6 handlers\<close>

lemma first_interface_address_found:
  "first_interface_address cs name al = Some a \<Longrightarrow>
   list_all (\<lambda>c. case ifa_addr c of Ifa_inet6 a \<Rightarrow> length a = 16 | _ \<Rightarrow> True) cs \<Longrightarrow>
   length a = 16 \<and> list_ex (\<lambda>c. ifa_name c = name \<and> ifa_addr c = Ifa_inet6 a) cs"
  by (induction cs) (auto split: ifa_addr.splits if_splits)

lemma relayd_get_interface_address_found:
  "relayd_get_interface_address env name al = Some a \<Longrightarrow> addresses_wellformed env \<Longrightarrow>
   length a = 16 \<and> address_of_interface env name a"
  unfolding relayd_get_interface_address_def addresses_wellformed_def address_of_interface_def
  by (auto split: option.splits dest: first_interface_address_found)

lemma client_options_iov1:
  "client_options duid data os (cl, cb, i1, i2) = Some (cl', cb', i1', i2') \<Longrightarrow> i1 \<le> i1'"
proof (induction os arbitrary: cl cb i1 i2)
  case Nil
  then show ?case by simp
next
  case (Cons x os)
  obtain t l d where x: "x = (t, l, d)" by (cases x)
  from Cons.prems show ?case
    unfolding x by (auto split: if_splits dest!: Cons.IH)
qed

lemma dest_dns_addr:
  "length tr = 3 \<Longrightarrow> length a = 16 \<Longrightarrow> 24 \<le> n \<Longrightarrow>
   bytes_at (take n (dest_bytes m tr a mc cl cb)) 8 16 = a"
proof -
  assume tr: "length tr = 3" and a: "length a = 16" and n: "24 \<le> n"
  obtain P R where d: "dest_bytes m tr a mc cl cb = P @ a @ R" and P: "length P = 8"
  proof
    show "dest_bytes m tr a mc cl cb =
        ([m] @ tr @ htons DHCPV6_OPT_DNS_SERVERS @ htons 16) @ a @
        (htons DHCPV6_OPT_SERVERID @ htons 10 @ server_duid mc @
         htons DHCPV6_OPT_CLIENTID @ htons cl @ cb)"
      using a by (simp add: dest_bytes_def)
    show "length ([m] @ tr @ htons DHCPV6_OPT_DNS_SERVERS @ htons 16) = 8"
      using tr by (simp add: htons_def)
  qed
  from P a n show ?thesis by (simp add: d bytes_at_def)
qed

lemma mini_server_dns:
  assumes "handle_client_request cfg env peer data len iface = Finished (Some pkt)"
    and "len \<le> length data" and "addresses_wellformed env"
  shows "\<exists>a. relayd_get_interface_address env (ifname (iface_of cfg iface)) True = Some a \<and>
           address_of_interface env (ifname (iface_of cfg iface)) a \<and>
           bytes_at (sp_iov pkt ! 1) 8 16 = a"
proof -
  from assms(1) have len4: "4 \<le> len"
    by (auto simp: handle_client_request_def split: if_splits)
  with assms(2) have tr: "length (bytes_at data 1 3) = 3" by (simp add: bytes_at_def)
  from assms(1) obtain a cl cb i1 i2 m where
    a: "relayd_get_interface_address env (ifname (iface_of cfg iface)) True = Some a" and
    i1: "38 \<le> i1" and
    iov: "sp_iov pkt ! 1 = take i1 (dest_bytes m (bytes_at data 1 3) a (mac (iface_of cfg iface)) cl cb)"
    by (auto simp: handle_client_request_def Let_def
        split: if_splits option.splits ctl.splits prod.splits dest: client_options_iov1)
  from relayd_get_interface_address_found [OF a assms(3)]
  have "length a = 16" "address_of_interface env (ifname (iface_of cfg iface)) a" by simp_all
  with a i1 iov tr show ?thesis by (simp add: dest_dns_addr)
qed


lemma dns_scan_found:
  "fold (dns_scan_body cfg buf) os (r0, p0, c0, a0) = (r, Some ptr, cnt, au) \<Longrightarrow>
   (p0 = Some ptr \<and> c0 = cnt) \<or> (\<exists>t l. (t, l, ptr) \<in> set os \<and> cnt = l div 16 \<and> 16 \<le> l)"
proof (induction os arbitrary: r0 p0 c0 a0)
  case Nil
  then show ?case by simp
next
  case (Cons x os)
  obtain t l d where x: "x = (t, l, d)" by (cases x)
  from Cons.prems show ?case
    unfolding x by (auto split: if_splits dest!: Cons.IH)
qed

lemma bytes_at_bytes_at:
  "q + n \<le> m \<Longrightarrow> pos + m \<le> length buf \<Longrightarrow>
   bytes_at (bytes_at buf pos m) q n = bytes_at buf (pos + q) n"
  by (rule bytes_at_eqI) (simp_all add: bytes_at_length bytes_at_nth add.assoc)

lemma copy_dns_entries:
  assumes a: "length a = 16" and n: "ptr + 16 * Suc n \<le> length buf"
  shows "length (fold (\<lambda>i b. memmove b (ptr + 16 * i) ptr 16) [1..<Suc n] (memcpy buf ptr a)) =
           length buf \<and>
         (\<forall>k\<le>n. bytes_at (fold (\<lambda>i b. memmove b (ptr + 16 * i) ptr 16) [1..<Suc n]
                          (memcpy buf ptr a)) (ptr + 16 * k) 16 = a)"
  using n
proof (induction n)
  case 0
  with a show ?case
    by (auto simp: memcpy_length memcpy_nth intro!: bytes_at_eqI)
next
  case (Suc n)
  define B where "B = fold (\<lambda>i b. memmove b (ptr + 16 * i) ptr 16) [1..<Suc n] (memcpy buf ptr a)"
  define C where "C = fold (\<lambda>i b. memmove b (ptr + 16 * i) ptr 16) [1..<Suc (Suc n)]
      (memcpy buf ptr a)"
  from Suc have len: "length B = length buf"
    and old: "\<And>k. k \<le> n \<Longrightarrow> bytes_at B (ptr + 16 * k) 16 = a"
    unfolding B_def by simp_all
  have step: "C = memmove B (ptr + 16 * Suc n) ptr 16"
    unfolding B_def C_def by simp
  have bnd: "ptr + 16 * Suc n + 16 \<le> length B" "ptr + 16 \<le> length B"
    using Suc.prems len by simp_all
  have new: "bytes_at C (ptr + 16 * k) 16 = a" if "k \<le> Suc n" for k
  proof (rule bytes_at_eqI)
    show "ptr + 16 * k + 16 \<le> length C"
      using bnd that by (simp add: step memmove_length)
    show "length a = 16" by (rule a)
    fix i :: nat assume i: "i < 16"
    show "C ! (ptr + 16 * k + i) = a ! i"
    proof (cases "k = Suc n")
      case True
      have "bytes_at B (ptr + 16 * 0) 16 ! i = B ! (ptr + i)"
        using i bnd by (simp add: bytes_at_nth)
      with old [of 0] i bnd True show ?thesis by (simp add: step memmove_nth)
    next
      case False
      with that have k: "k \<le> n" by simp
      have "bytes_at B (ptr + 16 * k) 16 ! i = B ! (ptr + 16 * k + i)"
        using i bnd k by (simp add: bytes_at_nth)
      with old [OF k] i bnd k show ?thesis by (simp add: step memmove_nth)
    qed
  qed
  have "length C = length buf" using bnd len by (simp add: step memmove_length)
  with new show ?case unfolding C_def by blast
qed

lemma rewrite_dns_servers_entries:
  assumes "length a = 16" and "0 < cnt" and "ptr + 16 * cnt \<le> length buf" and "k < cnt"
  shows "bytes_at (rewrite_dns_servers buf ptr cnt a) (ptr + 16 * k) 16 = a"
    and "length (rewrite_dns_servers buf ptr cnt a) = length buf"
proof -
  from assms obtain n where n: "cnt = Suc n" by (cases cnt) simp_all
  from copy_dns_entries [of a ptr n buf] assms n
  show "bytes_at (rewrite_dns_servers buf ptr cnt a) (ptr + 16 * k) 16 = a"
    and "length (rewrite_dns_servers buf ptr cnt a) = length buf"
    by (simp_all add: rewrite_dns_servers_def)
qed

lemma relay_reply_dns:
  assumes d: "deliver_response cfg env buf idx target (Some (pd, pl)) = Some pkt"
    and scan: "fold (dns_scan_body cfg buf) (dhcpv6_options buf (pd + 4) (pd + pl))
                 (False, None, 0, False) = (True, Some ptr, cnt, au)"
    and norelay: "buf ! pd \<noteq> DHCPV6_MSG_RELAY_REPL"
    and cnt: "0 < cnt" and len: "pd + pl \<le> length buf" and wf: "addresses_wellformed env"
    and k: "k < cnt"
  shows "\<exists>i a. find_slave cfg idx = Some i \<and> sp_iface pkt = Slave i \<and>
           relayd_get_interface_address env (ifname (slaves cfg ! i)) True = Some a \<and>
           address_of_interface env (ifname (slaves cfg ! i)) a \<and>
           bytes_at (sp_iov pkt ! 0) (ptr - pd + 16 * k) 16 = a"
proof -
  from dns_scan_found [OF scan] obtain t l where
    opt: "(t, l, ptr) \<in> set (dhcpv6_options buf (pd + 4) (pd + pl))" and l: "cnt = l div 16"
    by auto
  from dhcpv6_options_bounds [OF opt] have b: "pd + 8 \<le> ptr" "ptr + l \<le> pd + pl" by simp_all
  from l have "16 * cnt \<le> l" by simp
  with b have c: "ptr + 16 * cnt \<le> pd + pl" by simp
  from d scan norelay cnt obtain i a where
    i: "find_slave cfg idx = Some i" "sp_iface pkt = Slave i" and
    a: "relayd_get_interface_address env (ifname (slaves cfg ! i)) True = Some a" and
    iov: "sp_iov pkt ! 0 = bytes_at (rewrite_dns_servers buf ptr cnt a) pd pl"
    by (auto simp: deliver_response_def split: option.splits if_splits)
  from relayd_get_interface_address_found [OF a wf]
  have a16: "length a = 16" and ao: "address_of_interface env (ifname (slaves cfg ! i)) a"
    by simp_all
  from c len have c': "ptr + 16 * cnt \<le> length buf" by simp
  have "bytes_at (bytes_at (rewrite_dns_servers buf ptr cnt a) pd pl) (ptr - pd + 16 * k) 16 =
      bytes_at (rewrite_dns_servers buf ptr cnt a) (pd + (ptr - pd + 16 * k)) 16"
    using b c k len rewrite_dns_servers_entries(2) [OF a16 cnt c' k]
    by (intro bytes_at_bytes_at) simp_all
  also have "pd + (ptr - pd + 16 * k) = ptr + 16 * k" using b by simp
  finally have "bytes_at (sp_iov pkt ! 0) (ptr - pd + 16 * k) 16 = a"
    using rewrite_dns_servers_entries(1) [OF a16 cnt c' k] iov by simp
  with i a ao show ?thesis by blast
qed


lemma relay_reply_payload:
  "fold (relay_reply_body buf) os (i0, p0) = (idx, Some (pd, pl)) \<Longrightarrow>
   p0 = Some (pd, pl) \<or> (\<exists>t. (t, pl, pd) \<in> set os)"
proof (induction os arbitrary: i0 p0)
  case Nil
  then show ?case by simp
next
  case (Cons x os)
  obtain t l d where x: "x = (t, l, d)" by (cases x)
  from Cons.prems show ?case
    unfolding x by (auto split: if_splits dest!: Cons.IH)
qed

lemmas eval_defs = handle_client_request_def relay_server_response_def deliver_response_def
  dhcpv6_options_def dhcpv6_walk.simps be16_def relayd_get_interface_address_def iface_of_def
  find_slave_def bytes_at_def memcpy_def memmove_def rewrite_dns_servers_def le32_word_def
  dest_bytes_def stat_bytes_def server_duid_def htons_def IN6_IS_ADDR_LINKLOCAL_def Let_def
  DHCPV6_CLIENT_PORT_def DHCPV6_SERVER_PORT_def

section \<open>Facts about the mini-server\<close>

lemma htons_be16: "htons (be16 buf i) = [buf ! i, buf ! (i + 1)]"
proof -
  have lt: "unat (buf ! (i + 1)) < 256"
    using unsigned_less [of "buf ! (i + 1)", where 'a = nat] by simp
  then have "(unat (buf ! i) * 256 + unat (buf ! (i + 1))) div 256 = unat (buf ! i)" by simp
  moreover have z: "(256 :: u8) = 0" by simp
  have "x * (256 :: u8) = 0" for x using z by (metis mult_zero_right)
  then have "(of_nat (unat (buf ! i) * 256 + unat (buf ! (i + 1))) :: u8) = buf ! (i + 1)"
    by simp
  ultimately show ?thesis by (simp add: htons_def be16_def)
qed

lemma dhcpv6_walk_fields:
  "(t, l, d) \<in> set (snd (dhcpv6_walk buf p e)) \<Longrightarrow>
   4 \<le> d \<and> t = be16 buf (d - 4) \<and> l = be16 buf (d - 2)"
proof (induction buf p e rule: dhcpv6_walk.induct)
  case (1 buf p e)
  show ?case
  proof (cases "p + 4 \<le> e \<and> p + 4 + be16 buf (p + 2) \<le> e")
    case True
    with "1.prems" have "(t, l, d) = (be16 buf p, be16 buf (p + 2), p + 4) \<or>
        (t, l, d) \<in> set (snd (dhcpv6_walk buf (p + 4 + be16 buf (p + 2)) e))"
      by (subst (asm) dhcpv6_walk.simps) (auto simp: Let_def)
    with True "1.IH" show ?thesis by fastforce
  next
    case False
    with "1.prems" show ?thesis
      by (subst (asm) dhcpv6_walk.simps) (auto split: if_splits)
  qed
qed

lemma client_options_none:
  "filter is_clientid os = [] \<Longrightarrow> list_all (serverid_ok duid data) os \<Longrightarrow>
   \<exists>i2'. client_options duid data os (cl, cb, i1, i2) = Some (cl, cb, i1, i2')"
proof (induction os arbitrary: i2)
  case Nil
  then show ?case by simp
next
  case (Cons x os)
  obtain t l d where x: "x = (t, l, d)" by (cases x)
  from Cons.prems have rest: "filter is_clientid os = []" "list_all (serverid_ok duid data) os"
    and nc: "\<not> is_clientid (t, l, d)" and hd: "serverid_ok duid data (t, l, d)"
    unfolding x by (simp_all split: if_splits)
  from nc have t: "t \<noteq> DHCPV6_OPT_CLIENTID" by (simp add: is_clientid_def)
  from hd have sid: "t = DHCPV6_OPT_SERVERID \<longrightarrow> l = 10 \<and> bytes_at data d l = duid"
    by (auto simp: serverid_ok_def)
  from Cons.IH [OF rest] t sid show ?case unfolding x by (auto simp: opt_defs)
qed

lemma client_options_one:
  "filter is_clientid os = [(DHCPV6_OPT_CLIENTID, l, d)] \<Longrightarrow> l \<le> 130 \<Longrightarrow>
   list_all (serverid_ok duid data) os \<Longrightarrow>
   \<exists>i2'. client_options duid data os (cl, cb, i1, i2) =
           Some (l, memcpy cb 0 (bytes_at data d l), i1 + (4 + l), i2')"
proof (induction os arbitrary: i2)
  case Nil
  then show ?case by simp
next
  case (Cons x os)
  obtain t' l' d' where x: "x = (t', l', d')" by (cases x)
  from Cons.prems(3) have ok: "list_all (serverid_ok duid data) os"
    and hd: "serverid_ok duid data (t', l', d')"
    unfolding x by simp_all
  from hd have sid: "t' = DHCPV6_OPT_SERVERID \<longrightarrow> l' = 10 \<and> bytes_at data d' l' = duid"
    by (auto simp: serverid_ok_def)
  show ?case
  proof (cases "t' = DHCPV6_OPT_CLIENTID")
    case True
    then have "is_clientid (t', l', d')" by (simp add: is_clientid_def)
    with Cons.prems(1) have eq: "l' = l" "d' = d" and rest: "filter is_clientid os = []"
      unfolding x by simp_all
    from client_options_none [OF rest ok] True eq Cons.prems(2)
    show ?thesis unfolding x by (auto simp: opt_defs)
  next
    case False
    then have "\<not> is_clientid (t', l', d')" by (simp add: is_clientid_def)
    with Cons.prems(1) have "filter is_clientid os = [(DHCPV6_OPT_CLIENTID, l, d)]"
      unfolding x by simp
    from Cons.IH [OF this Cons.prems(2) ok] False sid show ?thesis
      unfolding x by (auto simp: opt_defs)
  qed
qed

lemma dest_bytes_clientid:
  assumes tr: "length tr = 3" and a: "length a = 16" and m: "6 \<le> length mc"
    and c: "length cid = l" and l: "l \<le> 130"
  shows "\<exists>hd. take (38 + (4 + l)) (dest_bytes mt tr a mc l (memcpy (replicate 130 0) 0 cid)) =
           hd @ htons DHCPV6_OPT_CLIENTID @ htons l @ cid \<and> length hd = 38 \<and>
           hd ! 0 = mt \<and> bytes_at hd 1 3 = tr"
proof -
  define H where "H = [mt] @ tr @ htons DHCPV6_OPT_DNS_SERVERS @ htons 16 @ take 16 a @
     htons DHCPV6_OPT_SERVERID @ htons 10 @ server_duid mc"
  define M where "M = htons DHCPV6_OPT_CLIENTID @ htons l @ cid"
  have len: "length H = 38" using tr a m by (simp add: H_def htons_def server_duid_def)
  have lenM: "length M = 4 + l" using c by (simp add: M_def htons_def)
  have buf: "memcpy (replicate 130 0) 0 cid = cid @ replicate (130 - l) 0"
    using c l by (simp add: memcpy_def)
  have "dest_bytes mt tr a mc l (memcpy (replicate 130 0) 0 cid) = H @ M @ replicate (130 - l) 0"
    by (simp add: dest_bytes_def buf H_def M_def)
  then have "take (38 + (4 + l)) (dest_bytes mt tr a mc l (memcpy (replicate 130 0) 0 cid)) =
      H @ M"
    using len lenM by simp
  moreover have "H ! 0 = mt" by (simp add: H_def)
  moreover have "bytes_at H 1 3 = tr" using tr by (simp add: bytes_at_def H_def)
  ultimately show ?thesis using len unfolding M_def by blast
qed


lemma bytes_at_option:
  assumes "4 \<le> d" and "d + l \<le> length buf"
  shows "bytes_at buf (d - 4) (4 + l) =
    htons (be16 buf (d - 4)) @ htons (be16 buf (d - 2)) @ bytes_at buf d l"
proof -
  have "bytes_at buf (d - 4) (4 + l) = bytes_at buf (d - 4) 4 @ bytes_at buf d l"
    using assms by (simp add: bytes_at_def take_add)
  moreover have "bytes_at buf (d - 4) 4 =
      [buf ! (d - 4), buf ! (d - 4 + 1), buf ! (d - 2), buf ! (d - 2 + 1)]"
  proof (rule bytes_at_eqI)
    show "d - 4 + 4 \<le> length buf" using assms by simp
    show "length [buf ! (d - 4), buf ! (d - 4 + 1), buf ! (d - 2), buf ! (d - 2 + 1)] = 4"
      by simp
    fix i :: nat assume "i < 4"
    then consider "i = 0" | "i = 1" | "i = 2" | "i = 3" by linarith
    then show "buf ! (d - 4 + i) =
        [buf ! (d - 4), buf ! (d - 4 + 1), buf ! (d - 2), buf ! (d - 2 + 1)] ! i"
    proof cases
      case 1
      then show ?thesis by simp
    next
      case 2
      then show ?thesis by simp
    next
      case 3
      have "d - 4 + 2 = d - 2" using assms(1) by simp
      with 3 show ?thesis by simp
    next
      case 4
      have "d - 4 + 3 = d - 2 + 1" using assms(1) by simp
      with 4 show ?thesis by (simp del: One_nat_def add_2_eq_Suc' add_2_eq_Suc)
    qed
  qed
  ultimately show ?thesis by (simp add: htons_be16)
qed

section \<open>Facts about the forwarding of Router Advertisements\<close>

lemma icmpv6_options_unfold:
  "icmpv6_options buf p e =
     (if p + 8 \<le> e \<and> 0 < unat (buf ! (p + 1)) \<and> p + 8 * unat (buf ! (p + 1)) \<le> e
      then (unat (buf ! p), unat (buf ! (p + 1)), p) #
           icmpv6_options buf (p + 8 * unat (buf ! (p + 1))) e
      else [])"
  by (rule icmpv6_options.simps)

lemma icmpv6_options_fields:
  "(t, l, q) \<in> set (icmpv6_options buf p e) \<Longrightarrow>
   p \<le> q \<and> 0 < l \<and> q + 8 * l \<le> e \<and> t = unat (buf ! q) \<and> l = unat (buf ! (q + 1))"
proof (induction buf p e rule: icmpv6_options.induct)
  case (1 buf p e)
  show ?case
  proof (cases "p + 8 \<le> e \<and> 0 < unat (buf ! (p + 1)) \<and> p + 8 * unat (buf ! (p + 1)) \<le> e")
    case True
    with "1.prems" have "(t, l, q) = (unat (buf ! p), unat (buf ! (p + 1)), p) \<or>
        (t, l, q) \<in> set (icmpv6_options buf (p + 8 * unat (buf ! (p + 1))) e)"
      by (subst (asm) icmpv6_options_unfold) auto
    with True "1.IH" show ?thesis by fastforce
  next
    case False
    with "1.prems" show ?thesis by (subst (asm) icmpv6_options_unfold) auto
  qed
qed

lemma icmpv6_options_disjoint:
  "(t, l, q) \<in> set (icmpv6_options buf p e) \<Longrightarrow>
   (t', l', q') \<in> set (icmpv6_options buf p e) \<Longrightarrow>
   q = q' \<or> q + 8 * l \<le> q' \<or> q' + 8 * l' \<le> q"
proof (induction buf p e rule: icmpv6_options.induct)
  case (1 buf p e)
  show ?case
  proof (cases "p + 8 \<le> e \<and> 0 < unat (buf ! (p + 1)) \<and> p + 8 * unat (buf ! (p + 1)) \<le> e")
    case True
    let ?n = "p + 8 * unat (buf ! (p + 1))"
    have split: "x \<in> set (icmpv6_options buf p e) \<Longrightarrow>
        x = (unat (buf ! p), unat (buf ! (p + 1)), p) \<or> x \<in> set (icmpv6_options buf ?n e)" for x
      using True by (subst (asm) icmpv6_options_unfold) auto
    from split [OF "1.prems"(1)] split [OF "1.prems"(2)] show ?thesis
    proof (elim disjE)
      assume "(t, l, q) \<in> set (icmpv6_options buf ?n e)"
        "(t', l', q') \<in> set (icmpv6_options buf ?n e)"
      with True "1.IH" show ?thesis by blast
    next
      assume "(t, l, q) = (unat (buf ! p), unat (buf ! (p + 1)), p)"
        "(t', l', q') \<in> set (icmpv6_options buf ?n e)"
      with icmpv6_options_fields [of t' l' q' buf ?n e] show ?thesis by auto
    next
      assume "(t, l, q) \<in> set (icmpv6_options buf ?n e)"
        "(t', l', q') = (unat (buf ! p), unat (buf ! (p + 1)), p)"
      with icmpv6_options_fields [of t l q buf ?n e] show ?thesis by auto
    qed auto
  next
    case False
    with "1.prems" show ?thesis by (subst (asm) icmpv6_options_unfold) auto
  qed
qed

text \<open>A buffer that differs from the received one only inside the options, behind their
  type and length bytes, has the same options.\<close>

lemma icmpv6_options_stable:
  "(\<And>j. p \<le> j \<Longrightarrow> j < e \<Longrightarrow>
      \<not> (\<exists>(t, l, q) \<in> set (icmpv6_options buf p e). q + 2 \<le> j \<and> j < q + 8 * l) \<Longrightarrow>
      buf' ! j = buf ! j) \<Longrightarrow>
   icmpv6_options buf' p e = icmpv6_options buf p e"
proof (induction buf p e rule: icmpv6_options.induct)
  case (1 buf p e)
  show ?case
  proof (cases "p + 8 \<le> e")
    case False
    then show ?thesis
      by (subst icmpv6_options_unfold, subst (2) icmpv6_options_unfold) simp
  next
    case fits: True
    have uncovered: "\<not> (\<exists>(t, l, q) \<in> set (icmpv6_options buf p e). q + 2 \<le> j \<and> j < q + 8 * l)"
      if "j = p \<or> j = p + 1" for j
    proof
      assume "\<exists>(t, l, q) \<in> set (icmpv6_options buf p e). q + 2 \<le> j \<and> j < q + 8 * l"
      then obtain t l q where "(t, l, q) \<in> set (icmpv6_options buf p e)" "q + 2 \<le> j" by auto
      with icmpv6_options_fields [of t l q buf p e] that show False by auto
    qed
    have same: "buf' ! p = buf ! p" "buf' ! (p + 1) = buf ! (p + 1)"
    proof -
      show "buf' ! p = buf ! p"
      proof (rule "1.prems")
        show "p \<le> p" by simp
        show "p < e" using fits by simp
        show "\<not> (\<exists>(t, l, q) \<in> set (icmpv6_options buf p e). q + 2 \<le> p \<and> p < q + 8 * l)"
          by (rule uncovered) simp
      qed
      show "buf' ! (p + 1) = buf ! (p + 1)"
      proof (rule "1.prems")
        show "p \<le> p + 1" by simp
        show "p + 1 < e" using fits by simp
        show "\<not> (\<exists>(t, l, q) \<in> set (icmpv6_options buf p e). q + 2 \<le> p + 1 \<and> p + 1 < q + 8 * l)"
          by (rule uncovered) simp
      qed
    qed
    show ?thesis
    proof (cases "0 < unat (buf ! (p + 1)) \<and> p + 8 * unat (buf ! (p + 1)) \<le> e")
      case False
      with same show ?thesis
        by (subst icmpv6_options_unfold, subst (2) icmpv6_options_unfold) auto
    next
      case True
      let ?n = "p + 8 * unat (buf ! (p + 1))"
      have "icmpv6_options buf' ?n e = icmpv6_options buf ?n e"
      proof (rule "1.IH")
        show "p + 8 \<le> e \<and> 0 < unat (buf ! (p + 1)) \<and> p + 8 * unat (buf ! (p + 1)) \<le> e"
          using fits True by simp
        fix j assume j: "?n \<le> j" "j < e"
          and nc: "\<not> (\<exists>(t, l, q) \<in> set (icmpv6_options buf ?n e). q + 2 \<le> j \<and> j < q + 8 * l)"
        have "\<not> (\<exists>(t, l, q) \<in> set (icmpv6_options buf p e). q + 2 \<le> j \<and> j < q + 8 * l)"
        proof
          assume "\<exists>(t, l, q) \<in> set (icmpv6_options buf p e). q + 2 \<le> j \<and> j < q + 8 * l"
          then obtain t l q where m: "(t, l, q) \<in> set (icmpv6_options buf p e)"
            and c: "q + 2 \<le> j" "j < q + 8 * l" by auto
          from m fits True have "(t, l, q) = (unat (buf ! p), unat (buf ! (p + 1)), p) \<or>
              (t, l, q) \<in> set (icmpv6_options buf ?n e)"
            by (subst (asm) icmpv6_options_unfold) auto
          with c j nc show False by auto
        qed
        with j "1.prems" [of j] show "buf' ! j = buf ! j" by simp
      qed
      with same fits True show ?thesis
        by (subst icmpv6_options_unfold, subst (2) icmpv6_options_unfold) simp
    qed
  qed
qed


lemma ra_scan_last:
  "fold ra_scan_body W (m0, d0, c0) = (mp, dp, c) \<Longrightarrow>
   mp = (case filter is_source_lladdr W of [] \<Rightarrow> m0 | x # xs \<Rightarrow> Some (snd (snd (last (x # xs))) + 2))"
proof (induction W arbitrary: m0 d0 c0)
  case Nil
  then show ?case by simp
next
  case (Cons x W)
  obtain t l q where x: "x = (t, l, q)" by (cases x)
  show ?case
  proof (cases "t = ND_OPT_SOURCE_LINKADDR")
    case True
    with Cons.prems have "fold ra_scan_body W (Some (q + 2), d0, c0) = (mp, dp, c)"
      unfolding x by simp
    from Cons.IH [OF this] True show ?thesis
      unfolding x by (simp add: is_source_lladdr_def split: list.splits)
  next
    case False
    with Cons.prems obtain d1 c1 where "fold ra_scan_body W (m0, d1, c1) = (mp, dp, c)"
      unfolding x by (auto split: if_splits)
    from Cons.IH [OF this] False show ?thesis
      unfolding x by (simp add: is_source_lladdr_def)
  qed
qed

lemma ra_scan_found:
  "fold ra_scan_body W (m0, d0, c0) = (mp, dp, c) \<Longrightarrow>
   (mp = m0 \<or> (\<exists>l q. (ND_OPT_SOURCE_LINKADDR, l, q) \<in> set W \<and> mp = Some (q + 2))) \<and>
   ((dp, c) = (d0, c0) \<or>
    (\<exists>l q. (ND_OPT_RECURSIVE_DNS, l, q) \<in> set W \<and> 1 < l \<and> dp = Some (q + 8) \<and>
       c = (l - 1) div 2))"
proof (induction W arbitrary: m0 d0 c0)
  case Nil
  then show ?case by simp
next
  case (Cons x W)
  obtain t l q where x: "x = (t, l, q)" by (cases x)
  from Cons.prems show ?case
    unfolding x by (auto split: if_splits dest!: Cons.IH)
qed

lemma ra_ranges:
  assumes scan: "fold ra_scan_body (icmpv6_options data 16 len) (None, None, 0) = (mp, dp, c)"
  shows "(\<forall>m. mp = Some m \<longrightarrow> 18 \<le> m \<and> m + 6 \<le> len)"
    and "(\<forall>d. dp = Some d \<longrightarrow> 24 \<le> d \<and> d + 16 * c \<le> len)"
    and "(\<forall>m d. mp = Some m \<and> dp = Some d \<longrightarrow> m + 6 \<le> d \<or> d + 16 * c \<le> m)"
    and "(\<forall>j. ra_written cfg mp dp c j \<and> j \<noteq> 5 \<longrightarrow>
           (\<exists>(t, l, q) \<in> set (icmpv6_options data 16 len). q + 2 \<le> j \<and> j < q + 8 * l))"
proof -
  let ?W = "icmpv6_options data 16 len"
  from ra_scan_found [OF scan]
  have M: "mp = None \<or> (\<exists>l q. (ND_OPT_SOURCE_LINKADDR, l, q) \<in> set ?W \<and> mp = Some (q + 2))"
    and D: "(dp, c) = (None, 0) \<or>
      (\<exists>l q. (ND_OPT_RECURSIVE_DNS, l, q) \<in> set ?W \<and> 1 < l \<and> dp = Some (q + 8) \<and>
         c = (l - 1) div 2)"
    by simp_all
  have half: "16 * ((l - 1) div 2) \<le> 8 * l - 8" for l :: nat by simp
  show m: "\<forall>m. mp = Some m \<longrightarrow> 18 \<le> m \<and> m + 6 \<le> len"
  proof (intro allI impI)
    fix m assume "mp = Some m"
    with M obtain l q where "(ND_OPT_SOURCE_LINKADDR, l, q) \<in> set ?W" "m = q + 2" by auto
    with icmpv6_options_fields [of ND_OPT_SOURCE_LINKADDR l q data 16 len]
    show "18 \<le> m \<and> m + 6 \<le> len" by auto
  qed
  show d: "\<forall>d. dp = Some d \<longrightarrow> 24 \<le> d \<and> d + 16 * c \<le> len"
  proof (intro allI impI)
    fix d assume "dp = Some d"
    with D obtain l q where "(ND_OPT_RECURSIVE_DNS, l, q) \<in> set ?W" "1 < l" "d = q + 8"
      "c = (l - 1) div 2" by auto
    with icmpv6_options_fields [of ND_OPT_RECURSIVE_DNS l q data 16 len] half [of l]
    show "24 \<le> d \<and> d + 16 * c \<le> len" by auto
  qed
  show "\<forall>m d. mp = Some m \<and> dp = Some d \<longrightarrow> m + 6 \<le> d \<or> d + 16 * c \<le> m"
  proof (intro allI impI)
    fix m d assume "mp = Some m \<and> dp = Some d"
    with M D obtain l q l' q' where
      a: "(ND_OPT_SOURCE_LINKADDR, l, q) \<in> set ?W" "m = q + 2" and
      b: "(ND_OPT_RECURSIVE_DNS, l', q') \<in> set ?W" "1 < l'" "d = q' + 8" "c = (l' - 1) div 2"
      by auto
    from icmpv6_options_fields [OF a(1)] icmpv6_options_fields [OF b(1)]
    have ne: "q \<noteq> q'" and pos: "0 < l" "0 < l'"
      by (auto simp: ND_OPT_SOURCE_LINKADDR_def ND_OPT_RECURSIVE_DNS_def)
    from icmpv6_options_disjoint [OF a(1) b(1)] ne
    have "q + 8 * l \<le> q' \<or> q' + 8 * l' \<le> q" by simp
    with a b pos half [of l'] show "m + 6 \<le> d \<or> d + 16 * c \<le> m" by auto
  qed
  show "\<forall>j. ra_written cfg mp dp c j \<and> j \<noteq> 5 \<longrightarrow>
      (\<exists>(t, l, q) \<in> set ?W. q + 2 \<le> j \<and> j < q + 8 * l)"
  proof (intro allI impI)
    fix j assume w: "ra_written cfg mp dp c j \<and> j \<noteq> 5"
    then consider m where "mp = Some m" "m \<le> j" "j < m + 6"
      | d where "dp = Some d" "d \<le> j" "j < d + 16 * c"
      by (auto simp: ra_written_def split: option.splits)
    then show "\<exists>(t, l, q) \<in> set ?W. q + 2 \<le> j \<and> j < q + 8 * l"
    proof cases
      case 1
      with M obtain l q where a: "(ND_OPT_SOURCE_LINKADDR, l, q) \<in> set ?W" "m = q + 2" by auto
      from icmpv6_options_fields [OF a(1)] have "0 < l" by simp
      with 1 a have "q + 2 \<le> j \<and> j < q + 8 * l" by auto
      with a(1) show ?thesis by blast
    next
      case 2
      with D obtain l q where b: "(ND_OPT_RECURSIVE_DNS, l, q) \<in> set ?W" "1 < l" "d = q + 8"
        "c = (l - 1) div 2" by auto
      with 2 half [of l] have "q + 2 \<le> j \<and> j < q + 8 * l" by auto
      with b(1) show ?thesis by blast
    qed
  qed
qed


lemma forward_to_slaves_ifaces:
  "map sp_iface (forward_to_slaves cfg env mp dp c len buf i ss) =
   map (\<lambda>(k, s). Slave k) (filter (\<lambda>(k, s). ra_can_comply cfg env dp c s) (enumerate i ss))"
proof (induction ss arbitrary: buf i)
  case Nil
  then show ?case by simp
next
  case (Cons s ss)
  define R where "R = map (\<lambda>(k, s). Slave k)
    (filter (\<lambda>(k, s). ra_can_comply cfg env dp c s) (enumerate (Suc i) ss))"
  have IH: "map sp_iface (forward_to_slaves cfg env mp dp' c len b (Suc i) ss) = R"
    if "dp' = dp" for b dp'
    unfolding R_def that by (simp add: Cons.IH)
  have "map sp_iface (forward_to_slaves cfg env mp dp c len buf i (s # ss)) =
      (if ra_can_comply cfg env dp c s then Slave i # R else R)"
    by (cases dp; cases "ra_rewrite_address cfg env s")
      (simp_all add: IH ra_can_comply_def ra_packet_def Let_def)
  then show ?case unfolding R_def by simp
qed

lemma enumerate_filter_indices:
  "map (\<lambda>(k, s). f k) (filter (\<lambda>(k, s). P s) (enumerate 0 xs)) =
   map f (filter (\<lambda>k. P (xs ! k)) [0..<length xs])"
proof -
  have "enumerate 0 xs = map (\<lambda>k. (k, xs ! k)) [0..<length xs]"
    by (rule nth_equalityI) (simp_all add: nth_enumerate_eq)
  then show ?thesis by (simp add: filter_map comp_def)
qed

lemma fold_memcpy_frame:
  assumes "d + 16 * n \<le> length buf"
  shows "length (fold (\<lambda>k b. memcpy b (d + 16 * k) (take 16 a)) [0..<n] buf) = length buf \<and>
    (\<forall>j. j < d \<or> d + 16 * n \<le> j \<longrightarrow>
       fold (\<lambda>k b. memcpy b (d + 16 * k) (take 16 a)) [0..<n] buf ! j = buf ! j)"
  using assms
proof (induction n)
  case 0
  then show ?case by simp
next
  case (Suc n)
  define B where "B = fold (\<lambda>k b. memcpy b (d + 16 * k) (take 16 a)) [0..<n] buf"
  from Suc.prems have "d + 16 * n \<le> length buf" by simp
  from Suc.IH [OF this] have len: "length B = length buf"
    and old: "\<And>j. j < d \<or> d + 16 * n \<le> j \<Longrightarrow> B ! j = buf ! j"
    unfolding B_def by blast+
  have step: "fold (\<lambda>k b. memcpy b (d + 16 * k) (take 16 a)) [0..<Suc n] buf =
      memcpy B (d + 16 * n) (take 16 a)"
    unfolding B_def by simp
  have fit: "d + 16 * n + length (take 16 a) \<le> length B"
    using Suc.prems len by simp
  have "length (memcpy B (d + 16 * n) (take 16 a)) = length buf"
    using fit len by (simp add: memcpy_length)
  moreover have "memcpy B (d + 16 * n) (take 16 a) ! j = buf ! j"
    if "j < d \<or> d + 16 * Suc n \<le> j" for j
  proof -
    from that have "\<not> (d + 16 * n \<le> j \<and> j < d + 16 * n + length (take 16 a))" by auto
    with fit have "memcpy B (d + 16 * n) (take 16 a) ! j = B ! j"
      by (subst memcpy_nth) auto
    also from that have "B ! j = buf ! j" by (intro old) auto
    finally show ?thesis .
  qed
  ultimately show ?case unfolding step by blast
qed


lemma forward_to_slaves_step:
  assumes A1: "\<And>m. mp = Some m \<Longrightarrow> m + 6 \<le> length buf"
    and A2: "\<And>d. dp = Some d \<Longrightarrow> d + 16 * c \<le> length buf"
    and A3: "\<And>m d. mp = Some m \<Longrightarrow> dp = Some d \<Longrightarrow> m + 6 \<le> d \<or> d + 16 * c \<le> m"
    and A4: "length (mac s) = 6"
  shows "\<exists>F. length F = length buf \<and> (\<forall>j. \<not> ra_written cfg mp dp c j \<longrightarrow> F ! j = buf ! j) \<and>
      (\<forall>m. mp = Some m \<longrightarrow> bytes_at F m 6 = mac s) \<and>
      (forward_to_slaves cfg env mp dp c len buf i (s # ss) =
         forward_to_slaves cfg env mp dp c len F (Suc i) ss \<or>
       forward_to_slaves cfg env mp dp c len buf i (s # ss) =
         ra_packet i F len # forward_to_slaves cfg env mp dp c len F (Suc i) ss)"
proof -
  define buf1 where "buf1 = (case mp of None \<Rightarrow> buf | Some m \<Rightarrow> memcpy buf m (take 6 (mac s)))"
  have l1: "length buf1 = length buf"
    using A1 A4 by (auto simp: buf1_def memcpy_length split: option.splits)
  have f1: "buf1 ! j = buf ! j" if "\<not> ra_written cfg mp dp c j" for j
    using that A1 A4 by (auto simp: buf1_def memcpy_nth ra_written_def split: option.splits)
  have m1: "bytes_at buf1 m 6 = mac s" if "mp = Some m" for m
    using that A1 [OF that] A4
    by (intro bytes_at_eqI) (simp_all add: buf1_def memcpy_length memcpy_nth)
  have P1: "length buf1 = length buf \<and> (\<forall>j. \<not> ra_written cfg mp dp c j \<longrightarrow> buf1 ! j = buf ! j) \<and>
      (\<forall>m. mp = Some m \<longrightarrow> bytes_at buf1 m 6 = mac s)"
    using l1 f1 m1 by blast
  show ?thesis
  proof (cases dp)
    case None
    then have "forward_to_slaves cfg env mp dp c len buf i (s # ss) =
        ra_packet i buf1 len # forward_to_slaves cfg env mp dp c len buf1 (Suc i) ss"
      by (simp add: buf1_def Let_def)
    with P1 show ?thesis by blast
  next
    case (Some d)
    show ?thesis
    proof (cases "always_rewrite_dns cfg \<and> c > 0")
      case False
      with Some have "forward_to_slaves cfg env mp dp c len buf i (s # ss) =
          ra_packet i buf1 len # forward_to_slaves cfg env mp dp c len buf1 (Suc i) ss"
        by (auto simp: buf1_def Let_def)
      with P1 show ?thesis by blast
    next
      case True
      show ?thesis
      proof (cases "ra_rewrite_address cfg env s")
        case None
        with Some True have "forward_to_slaves cfg env mp dp c len buf i (s # ss) =
            forward_to_slaves cfg env mp dp c len buf1 (Suc i) ss"
          by (simp add: buf1_def Let_def)
        with P1 show ?thesis by blast
      next
        case (Some a)
        define buf2 where "buf2 = fold (\<lambda>k b. memcpy b (d + 16 * k) (take 16 a)) [0..<c] buf1"
        from A2 [OF \<open>dp = Some d\<close>] l1 have fit: "d + 16 * c \<le> length buf1" by simp
        from fold_memcpy_frame [OF fit, of a] have l2: "length buf2 = length buf1"
          and fr: "\<And>j. j < d \<or> d + 16 * c \<le> j \<Longrightarrow> buf2 ! j = buf1 ! j"
          unfolding buf2_def by blast+
        have f2: "buf2 ! j = buf ! j" if "\<not> ra_written cfg mp dp c j" for j
        proof -
          from that \<open>dp = Some d\<close> True have "j < d \<or> d + 16 * c \<le> j"
            by (auto simp: ra_written_def)
          with fr f1 that show ?thesis by simp
        qed
        have m2: "bytes_at buf2 m 6 = mac s" if "mp = Some m" for m
        proof -
          from A3 [OF that \<open>dp = Some d\<close>] have dis: "m + 6 \<le> d \<or> d + 16 * c \<le> m" .
          have "bytes_at buf2 m 6 = bytes_at buf1 m 6"
          proof (rule bytes_at_eqI)
            show "m + 6 \<le> length buf2" using A1 [OF that] l1 l2 by simp
            show "length (bytes_at buf1 m 6) = 6"
              using A1 [OF that] l1 by (simp add: bytes_at_length)
            fix i :: nat assume "i < 6"
            with dis fr [of "m + i"] A1 [OF that] l1
            show "buf2 ! (m + i) = bytes_at buf1 m 6 ! i" by (auto simp: bytes_at_nth)
          qed
          with m1 [OF that] show ?thesis by simp
        qed
        from \<open>dp = Some d\<close> True Some
        have "forward_to_slaves cfg env mp dp c len buf i (s # ss) =
            ra_packet i buf2 len # forward_to_slaves cfg env mp dp c len buf2 (Suc i) ss"
          by (simp add: buf1_def buf2_def Let_def)
        moreover have "length buf2 = length buf" using l1 l2 by simp
        ultimately show ?thesis using f2 m2 by blast
      qed
    qed
  qed
qed

lemma forward_to_slaves_packets:
  "(\<And>m. mp = Some m \<Longrightarrow> m + 6 \<le> length buf) \<Longrightarrow>
   (\<And>d. dp = Some d \<Longrightarrow> d + 16 * c \<le> length buf) \<Longrightarrow>
   (\<And>m d. mp = Some m \<Longrightarrow> dp = Some d \<Longrightarrow> m + 6 \<le> d \<or> d + 16 * c \<le> m) \<Longrightarrow>
   (\<forall>s \<in> set ss. length (mac s) = 6) \<Longrightarrow>
   pkt \<in> set (forward_to_slaves cfg env mp dp c len buf i ss) \<Longrightarrow>
   \<exists>k F. k < length ss \<and> sp_iface pkt = Slave (i + k) \<and> sp_iov pkt = [take len F] \<and>
     length F = length buf \<and> (\<forall>j. \<not> ra_written cfg mp dp c j \<longrightarrow> F ! j = buf ! j) \<and>
     (\<forall>m. mp = Some m \<longrightarrow> bytes_at F m 6 = mac (ss ! k))"
proof (induction ss arbitrary: buf i)
  case Nil
  then show ?case by simp
next
  case (Cons s ss)
  from Cons.prems(4) have macs: "length (mac s) = 6" "\<forall>s \<in> set ss. length (mac s) = 6"
    by simp_all
  from forward_to_slaves_step [OF Cons.prems(1-3) macs(1), of mp dp cfg env len i ss]
  obtain F where lF: "length F = length buf"
    and fF: "\<And>j. \<not> ra_written cfg mp dp c j \<Longrightarrow> F ! j = buf ! j"
    and mF: "\<And>m. mp = Some m \<Longrightarrow> bytes_at F m 6 = mac s"
    and split: "forward_to_slaves cfg env mp dp c len buf i (s # ss) =
         forward_to_slaves cfg env mp dp c len F (Suc i) ss \<or>
       forward_to_slaves cfg env mp dp c len buf i (s # ss) =
         ra_packet i F len # forward_to_slaves cfg env mp dp c len F (Suc i) ss"
    by blast
  from split Cons.prems(5) consider "pkt = ra_packet i F len"
    | "pkt \<in> set (forward_to_slaves cfg env mp dp c len F (Suc i) ss)" by auto
  then show ?case
  proof cases
    case 1
    have "0 < length (s # ss) \<and> sp_iface pkt = Slave (i + 0) \<and> sp_iov pkt = [take len F] \<and>
        length F = length buf \<and> (\<forall>j. \<not> ra_written cfg mp dp c j \<longrightarrow> F ! j = buf ! j) \<and>
        (\<forall>m. mp = Some m \<longrightarrow> bytes_at F m 6 = mac ((s # ss) ! 0))"
      using 1 lF fF mF by (simp add: ra_packet_def)
    then show ?thesis by blast
  next
    case 2
    have "\<exists>k G. k < length ss \<and> sp_iface pkt = Slave (Suc i + k) \<and> sp_iov pkt = [take len G] \<and>
        length G = length F \<and> (\<forall>j. \<not> ra_written cfg mp dp c j \<longrightarrow> G ! j = F ! j) \<and>
        (\<forall>m. mp = Some m \<longrightarrow> bytes_at G m 6 = mac (ss ! k))"
    proof (rule Cons.IH [OF _ _ _ macs(2) 2])
      show "\<And>m. mp = Some m \<Longrightarrow> m + 6 \<le> length F" using Cons.prems(1) lF by simp
      show "\<And>d. dp = Some d \<Longrightarrow> d + 16 * c \<le> length F" using Cons.prems(2) lF by simp
      show "\<And>m d. mp = Some m \<Longrightarrow> dp = Some d \<Longrightarrow> m + 6 \<le> d \<or> d + 16 * c \<le> m"
        using Cons.prems(3) by simp
    qed
    then obtain k G where "k < length ss" "sp_iface pkt = Slave (Suc i + k)"
      "sp_iov pkt = [take len G]" "length G = length F"
      "\<And>j. \<not> ra_written cfg mp dp c j \<Longrightarrow> G ! j = F ! j"
      "\<And>m. mp = Some m \<Longrightarrow> bytes_at G m 6 = mac (ss ! k)" by blast
    with lF fF have "Suc k < length (s # ss) \<and> sp_iface pkt = Slave (i + Suc k) \<and>
        sp_iov pkt = [take len G] \<and> length G = length buf \<and>
        (\<forall>j. \<not> ra_written cfg mp dp c j \<longrightarrow> G ! j = buf ! j) \<and>
        (\<forall>m. mp = Some m \<longrightarrow> bytes_at G m 6 = mac ((s # ss) ! Suc k))"
      by simp
    then show ?thesis by blast
  qed
qed


lemmas ra_eval_defs = forward_router_advertisement_def icmpv6_options.simps ra_packet_def
  ra_rewrite_address_def IN6_IS_ADDR_UNSPECIFIED_def memcpy_def ND_OPT_SOURCE_LINKADDR_def
  ND_OPT_RECURSIVE_DNS_def ND_RA_FLAG_OTHER_def ND_RA_FLAG_PROXY_def ALL_IPV6_NODES_def Let_def
  example_slave_noaddr_def example_two_slaves_config_def example_ra_def
  example_ra_two_lladdr_def

section \<open>Facts about the option walks of broken mode\<close>











lemma options_skipped_le: "options_skipped buf p q e \<Longrightarrow> p \<le> q"
  by (subst (asm) options_skipped.simps) (auto split: if_splits)




















section \<open>The option walker stays inside the packet\<close>

text \<open>C1. For a buffer of at most 64 KB and an end offset inside it, the walk started at any
  cursor \<open>p\<close> reads only indices in \<open>[p, e)\<close>, hence inside the buffer; every option it
  hands out has its value inside \<open>[p + 4, e)\<close>; the cursor arithmetic stays below \<open>2^32\<close>, so
  it cannot wrap; an option with length field 0 is handed out as one empty option and the
  walk goes on 4 bytes further; an option whose header fits but whose value would pass the
  end stops the walk with nothing handed out and only its 4 header bytes read; a header that
  does not fit is not read at all.\<close>

theorem dhcpv6_walk_stays_inside:
  assumes "e \<le> length buf" and "length buf \<le> 65536"
  shows "(\<forall>i \<in> set (fst (dhcpv6_walk buf p e)). p \<le> i \<and> i < e \<and> i < length buf) \<and>
    (\<forall>(t, l, d) \<in> set (snd (dhcpv6_walk buf p e)).
        p + 4 \<le> d \<and> d + l \<le> e \<and> d + l \<le> length buf) \<and>
    (p + 4 \<le> e \<longrightarrow> p + 4 + be16 buf (p + 2) < 2 ^ 32) \<and>
    (p + 4 \<le> e \<and> be16 buf (p + 2) = 0 \<longrightarrow>
        dhcpv6_walk buf p e =
          ([p, p + 1, p + 2, p + 3] @ fst (dhcpv6_walk buf (p + 4) e),
           (be16 buf p, 0, p + 4) # snd (dhcpv6_walk buf (p + 4) e))) \<and>
    (p + 4 \<le> e \<and> e < p + 4 + be16 buf (p + 2) \<longrightarrow>
        dhcpv6_walk buf p e = ([p, p + 1, p + 2, p + 3], [])) \<and>
    (e < p + 4 \<longrightarrow> dhcpv6_walk buf p e = ([], []))"
proof -
  have reads: "\<forall>i \<in> set (fst (dhcpv6_walk buf p e)). p \<le> i \<and> i < e \<and> i < length buf"
  proof
    fix i assume "i \<in> set (fst (dhcpv6_walk buf p e))"
    then have "p \<le> i \<and> i < e" by (rule dhcpv6_walk_reads)
    with assms show "p \<le> i \<and> i < e \<and> i < length buf" by simp
  qed
  have opts: "\<forall>(t, l, d) \<in> set (snd (dhcpv6_walk buf p e)).
      p + 4 \<le> d \<and> d + l \<le> e \<and> d + l \<le> length buf"
  proof
    fix x assume x: "x \<in> set (snd (dhcpv6_walk buf p e))"
    obtain t l d where "x = (t, l, d)" by (cases x)
    with x dhcpv6_walk_options [of t l d buf p e] assms
    show "case x of (t, l, d) \<Rightarrow> p + 4 \<le> d \<and> d + l \<le> e \<and> d + l \<le> length buf"
      by simp
  qed
  have nowrap: "p + 4 \<le> e \<longrightarrow> p + 4 + be16 buf (p + 2) < 2 ^ 32"
    using assms be16_bound [of buf "p + 2"] by simp
  have zero: "p + 4 \<le> e \<and> be16 buf (p + 2) = 0 \<longrightarrow>
      dhcpv6_walk buf p e =
        ([p, p + 1, p + 2, p + 3] @ fst (dhcpv6_walk buf (p + 4) e),
         (be16 buf p, 0, p + 4) # snd (dhcpv6_walk buf (p + 4) e))"
    by (subst dhcpv6_walk.simps) (simp add: Let_def)
  have over: "p + 4 \<le> e \<and> e < p + 4 + be16 buf (p + 2) \<longrightarrow>
      dhcpv6_walk buf p e = ([p, p + 1, p + 2, p + 3], [])"
    by (subst dhcpv6_walk.simps) simp
  have short: "e < p + 4 \<longrightarrow> dhcpv6_walk buf p e = ([], [])"
    by (subst dhcpv6_walk.simps) simp
  from reads opts nowrap zero over short show ?thesis by blast
qed

text \<open>An instance: a buffer of two options, the first with length 0, the second with
  declared length 0xffff. The walk reads the 8 header bytes, hands out the empty option and
  stops at the second.\<close>

theorem dhcpv6_walk_stays_inside_witness:
  "dhcpv6_walk [0, 1, 0, 0, 0, 2, 0xff, 0xff] 0 8 = ([0, 1, 2, 3, 4, 5, 6, 7], [(1, 0, 4)])"
proof -
  let ?buf = "[0, 1, 0, 0, 0, 2, 0xff, 0xff] :: u8 list"
  have len: "8 \<le> length ?buf" "length ?buf \<le> 65536" by simp_all
  have first: "dhcpv6_walk ?buf 0 8 =
      ([0, 1, 2, 3] @ fst (dhcpv6_walk ?buf 4 8), (be16 ?buf 0, 0, 4) # snd (dhcpv6_walk ?buf 4 8))"
    using dhcpv6_walk_stays_inside [OF len, of 0] by (simp add: be16_def)
  have second: "dhcpv6_walk ?buf 4 8 = ([4, 5, 6, 7], [])"
    using dhcpv6_walk_stays_inside [OF len, of 4] by (simp add: be16_def)
  show ?thesis by (simp add: first second be16_def)
qed

section \<open>Hop count of the relay envelope\<close>

text \<open>C2. In \<^verbatim>\<open>relay_client_request\<close>: a message that is not a RELAY-FORW is sent on in
  an envelope with hop count 0; a RELAY-FORW with hop count at least 32 is dropped; a
  RELAY-FORW with hop count \<open>h < 32\<close> is sent on with hop count \<open>h + 1\<close>. So every envelope
  sent is a RELAY-FORW with hop count at most 32, one more than the hop count that came in
  when the message was a RELAY-FORW.\<close>

theorem relay_client_request_hop_count:
  "(data ! 0 \<noteq> DHCPV6_MSG_RELAY_FORW \<and>
      relay_client_request cfg env source data len iface = Some (hdr, payload) \<longrightarrow>
        hop_count hdr = 0) \<and>
   (data ! 0 = DHCPV6_MSG_RELAY_FORW \<and> 32 \<le> unat (data ! 1) \<longrightarrow>
        relay_client_request cfg env source data len iface = None) \<and>
   (data ! 0 = DHCPV6_MSG_RELAY_FORW \<and> unat (data ! 1) < 32 \<and>
      relay_client_request cfg env source data len iface = Some (hdr, payload) \<longrightarrow>
        unat (hop_count hdr) = unat (data ! 1) + 1) \<and>
   (relay_client_request cfg env source data len iface = Some (hdr, payload) \<longrightarrow>
        msg_type hdr = DHCPV6_MSG_RELAY_FORW \<and> unat (hop_count hdr) \<le> 32 \<and>
        (data ! 0 = DHCPV6_MSG_RELAY_FORW \<longrightarrow>
           unat (hop_count hdr) = unat (data ! 1) + 1 \<and> unat (data ! 1) + 1 \<le> 32))"
proof -
  have one: "unat (data ! 1 + 1) = unat (data ! 1) + 1" if "unat (data ! 1) < 32"
    using that by (simp add: unat_word_ariths)
  show ?thesis
    using one
    by (auto simp: relay_client_request_def DHCPV6_HOP_COUNT_LIMIT_def Let_def
        split: option.splits if_splits)
qed

text \<open>An instance: a RELAY-FORW with hop count 31 received on the slave is sent on with
  hop count 32.\<close>

theorem relay_client_request_hop_count_witness:
  "\<exists>hdr payload.
     relay_client_request example_config example_env example_client
       (DHCPV6_MSG_RELAY_FORW # 31 # replicate 40 0) 42 (Slave 0) = Some (hdr, payload) \<and>
     unat (hop_count hdr) = 32"
proof -
  obtain hdr payload where e: "relay_client_request example_config example_env example_client
       (DHCPV6_MSG_RELAY_FORW # 31 # replicate 40 0) 42 (Slave 0) = Some (hdr, payload)"
    by (simp add: relay_client_request_def example_defs relayd_get_interface_address_def
        iface_of_def IN6_IS_ADDR_LINKLOCAL_def DHCPV6_HOP_COUNT_LIMIT_def msg_defs)
  from relay_client_request_hop_count [of "DHCPV6_MSG_RELAY_FORW # 31 # replicate 40 0"
      example_config example_env example_client 42 "Slave 0" hdr payload] e
  have "unat (hop_count hdr) = 32" by simp
  with e show ?thesis by blast
qed

section \<open>Server messages arriving on a slave\<close>

text \<open>C10. A datagram whose first byte is ADVERTISE, REPLY, RECONFIGURE or RELAY-REPL makes
  \<^verbatim>\<open>relay_client_request\<close> return without sending, and makes \<^verbatim>\<open>relay_client_request_broken\<close>
  return with the buffer as it was and nothing sent.\<close>

theorem server_messages_dropped:
  "data ! 0 \<in> {DHCPV6_MSG_ADVERTISE, DHCPV6_MSG_REPLY, DHCPV6_MSG_RECONFIGURE,
      DHCPV6_MSG_RELAY_REPL} \<Longrightarrow>
   relay_client_request cfg env source data len iface = None \<and>
   relay_client_request_broken h cfg source data len iface = Finished (data, None)"
  by (auto simp: relay_client_request_def relay_client_request_broken_def)

text \<open>An instance: an ADVERTISE with a Client-ID option, received on the slave.\<close>

theorem server_messages_dropped_witness:
  "relay_client_request example_config example_env example_client
     [2, 0x0a, 0x0b, 0x0c, 0, 1, 0, 2, 0xde, 0xad] 10 (Slave 0) = None \<and>
   relay_client_request_broken example_h example_config example_client
     [2, 0x0a, 0x0b, 0x0c, 0, 1, 0, 2, 0xde, 0xad] 10 (Slave 0) =
       Finished ([2, 0x0a, 0x0b, 0x0c, 0, 1, 0, 2, 0xde, 0xad], None)"
  using server_messages_dropped [of "[2, 0x0a, 0x0b, 0x0c, 0, 1, 0, 2, 0xde, 0xad]"
      example_config example_env example_client 10 "Slave 0" example_h]
  by (simp add: msg_defs)

section \<open>Which routine handles a datagram received on the master\<close>

text \<open>C7, as amended. A datagram received on the master is handled by
  \<^verbatim>\<open>relay_server_response\<close> when the DHCPv6 server mode is off, and on the socket bound to
  the master in broken-server mode; with the DHCPv6 server mode on, \<^verbatim>\<open>init_dhcpv6_relay\<close> has
  replaced the handler of the port 547 socket, and a datagram received there on the master
  is handled by \<^verbatim>\<open>handle_client_request\<close>, like one received on a slave.\<close>

theorem master_datagram_dispatch:
  "dhcpv6_engine h cfg env s peer data len Master = Some r \<Longrightarrow>
     r = (if s = Dhcpv6_socket \<and> enable_dhcpv6_server cfg
          then Mini_server (handle_client_request cfg env peer data len Master)
          else Server_response (relay_server_response h cfg env data len))"
  by (auto simp: dhcpv6_engine_def init_dhcpv6_relay_def handle_dhcpv6_def Let_def
      split: option.splits if_splits dgram_handler.splits)

text \<open>An instance: relay mode, a REPLY received on the master.\<close>

theorem master_datagram_dispatch_witness:
  "dhcpv6_engine example_h example_config example_env Dhcpv6_socket (example_client, 547)
     (DHCPV6_MSG_REPLY # replicate 40 0) 41 Master =
   Some (Server_response (relay_server_response example_h example_config example_env
     (DHCPV6_MSG_REPLY # replicate 40 0) 41))"
proof -
  have "dhcpv6_engine example_h example_config example_env Dhcpv6_socket (example_client, 547)
     (DHCPV6_MSG_REPLY # replicate 40 0) 41 Master \<noteq> None"
    by (simp add: dhcpv6_engine_def init_dhcpv6_relay_def example_defs DHCPV6_SERVER_PORT_def)
  then obtain r where r: "dhcpv6_engine example_h example_config example_env Dhcpv6_socket
     (example_client, 547) (DHCPV6_MSG_REPLY # replicate 40 0) 41 Master = Some r" by blast
  from master_datagram_dispatch [OF r] have
    "r = Server_response (relay_server_response example_h example_config example_env
       (DHCPV6_MSG_REPLY # replicate 40 0) 41)"
    by (simp add: example_defs)
  with r show ?thesis by simp
qed

text \<open>The claim as stated fails: with the server mode on, an Information-Request received
  on the master is handled by \<^verbatim>\<open>handle_client_request\<close>, which answers it, and not by
  \<^verbatim>\<open>relay_server_response\<close>.\<close>

theorem master_datagram_in_server_mode:
  "dhcpv6_engine example_h example_server_config example_env Dhcpv6_socket (example_client, 546)
     [11, 0x0a, 0x0b, 0x0c] 4 Master =
   Some (Mini_server (handle_client_request example_server_config example_env (example_client, 546)
     [11, 0x0a, 0x0b, 0x0c] 4 Master)) \<and>
   dhcpv6_engine example_h example_server_config example_env Dhcpv6_socket (example_client, 546)
     [11, 0x0a, 0x0b, 0x0c] 4 Master \<noteq>
   Some (Server_response (relay_server_response example_h example_server_config example_env
     [11, 0x0a, 0x0b, 0x0c] 4)) \<and>
   handle_client_request example_server_config example_env (example_client, 546)
     [11, 0x0a, 0x0b, 0x0c] 4 Master \<noteq> Finished None"
  by (simp add: dhcpv6_engine_def init_dhcpv6_relay_def example_defs DHCPV6_SERVER_PORT_def
      handle_client_request_def msg_defs opt_defs dhcpv6_options_def dhcpv6_walk.simps
      relayd_get_interface_address_def iface_of_def Let_def)

section \<open>The final Router Advertisement\<close>

text \<open>C4. \<^verbatim>\<open>deinit_router_discovery_relay\<close> sends one Router Advertisement per slave with
  \<open>in_shutdown\<close> set when the server mode is on, but \<^verbatim>\<open>main\<close> does not call it: between the
  end of the event loop and its return no Router Advertisement is sent.\<close>

theorem main_sends_no_final_advert:
  "filter is_router_advert (main_after_loop cfg) = [] \<and>
   filter is_router_advert (deinit_router_discovery_relay cfg) =
     (if enable_router_discovery_server cfg
      then map (\<lambda>i. Send_router_advert i True) [0..<length (slaves cfg)] else [])"
  by (simp add: main_after_loop_def deinit_router_discovery_relay_def is_router_advert_def
      filter_map comp_def)

section \<open>The DNS address handed to clients\<close>

text \<open>The two example runs: the mini-server answers an Information-Request received on the
  slave, and the relay forwards the REPLY of the example RELAY-REPL to the client.\<close>

lemma example_mini_server_reply:
  "handle_client_request example_server_config example_env (example_client, 546)
     [11, 0x0a, 0x0b, 0x0c] 4 (Slave 0) =
   Finished (Some \<lparr> sp_socket = Dhcpv6_socket, sp_dest = example_client, sp_port = 546,
     sp_iface = Slave 0,
     sp_iov = [[], [7, 0x0a, 0x0b, 0x0c, 0, 23, 0, 16] @ example_linklocal @
       [0, 2, 0, 10, 0, 3, 0, 1, 0x11, 0x22, 0x33, 0x44, 0x55, 0x66], [], []] \<rparr>)"
  by (simp add: eval_defs example_defs msg_defs opt_defs)

lemma example_relay_reply_sent:
  "relay_server_response example_h example_config example_env example_relay_reply 70 =
   Finished (Some \<lparr> sp_socket = Dhcpv6_socket, sp_dest = example_client, sp_port = 546,
     sp_iface = Slave 0,
     sp_iov = [[7, 0x0a, 0x0b, 0x0c, 0, 23, 0, 16] @ example_linklocal] \<rparr>)"
  by (simp add: eval_defs example_defs msg_defs opt_defs)

text \<open>C9, as amended. Every DNS address the DHCPv6 engine writes, in a mini-server reply
  (bytes 8 to 23 of \<^verbatim>\<open>iov[1]\<close>) and in each entry of the DNS Servers option it rewrites on
  the standard reply path, is the address \<^verbatim>\<open>relayd_get_interface_address\<close> returns for the
  ingress interface with link-local addresses allowed: an address of that interface, the
  first one \<^verbatim>\<open>getifaddrs\<close> lists, link-local or not.\<close>

theorem dns_address_written:
  assumes wf: "addresses_wellformed env"
  shows
   "(handle_client_request cfg env peer data len iface = Finished (Some pkt) \<and>
       len \<le> length data \<longrightarrow>
     (\<exists>a. relayd_get_interface_address env (ifname (iface_of cfg iface)) True = Some a \<and>
          address_of_interface env (ifname (iface_of cfg iface)) a \<and>
          bytes_at (sp_iov pkt ! 1) 8 16 = a)) \<and>
    (\<not> compat_broken_dhcpv6 cfg \<and>
     relay_server_response h cfg env rdata rlen = Finished (Some rpkt) \<and> rlen \<le> length rdata \<and>
     fold (relay_reply_body rdata) (dhcpv6_options rdata 34 rlen) (0, None) = (idx, Some (pd, pl)) \<and>
     rdata ! pd \<noteq> DHCPV6_MSG_RELAY_REPL \<and>
     fold (dns_scan_body cfg rdata) (dhcpv6_options rdata (pd + 4) (pd + pl))
       (False, None, 0, False) = (True, Some ptr, cnt, au) \<and> k < cnt \<longrightarrow>
     (\<exists>i a. find_slave cfg idx = Some i \<and> sp_iface rpkt = Slave i \<and>
          relayd_get_interface_address env (ifname (slaves cfg ! i)) True = Some a \<and>
          address_of_interface env (ifname (slaves cfg ! i)) a \<and>
          bytes_at (sp_iov rpkt ! 0) (ptr - pd + 16 * k) 16 = a))"
proof (intro conjI impI)
  assume "handle_client_request cfg env peer data len iface = Finished (Some pkt) \<and>
       len \<le> length data"
  then show "\<exists>a. relayd_get_interface_address env (ifname (iface_of cfg iface)) True = Some a \<and>
          address_of_interface env (ifname (iface_of cfg iface)) a \<and>
          bytes_at (sp_iov pkt ! 1) 8 16 = a"
    using mini_server_dns [of cfg env peer data len iface pkt] wf by simp
next
  assume A: "\<not> compat_broken_dhcpv6 cfg \<and>
     relay_server_response h cfg env rdata rlen = Finished (Some rpkt) \<and> rlen \<le> length rdata \<and>
     fold (relay_reply_body rdata) (dhcpv6_options rdata 34 rlen) (0, None) = (idx, Some (pd, pl)) \<and>
     rdata ! pd \<noteq> DHCPV6_MSG_RELAY_REPL \<and>
     fold (dns_scan_body cfg rdata) (dhcpv6_options rdata (pd + 4) (pd + pl))
       (False, None, 0, False) = (True, Some ptr, cnt, au) \<and> k < cnt"
  then have d: "deliver_response cfg env rdata idx (bytes_at rdata 18 16) (Some (pd, pl)) = Some rpkt"
    by (auto simp: relay_server_response_def split: if_splits)
  from A relay_reply_payload [of rdata "dhcpv6_options rdata 34 rlen" 0 None idx pd pl]
  obtain t where "(t, pl, pd) \<in> set (dhcpv6_options rdata 34 rlen)" by auto
  from dhcpv6_options_bounds [OF this] A have len: "pd + pl \<le> length rdata" by simp
  from A have "0 < cnt" by simp
  from relay_reply_dns [OF d _ _ this len wf, of ptr au k] A
  show "\<exists>i a. find_slave cfg idx = Some i \<and> sp_iface rpkt = Slave i \<and>
          relayd_get_interface_address env (ifname (slaves cfg ! i)) True = Some a \<and>
          address_of_interface env (ifname (slaves cfg ! i)) a \<and>
          bytes_at (sp_iov rpkt ! 0) (ptr - pd + 16 * k) 16 = a"
    by simp
qed

text \<open>An instance: in the two example runs the DNS address written is the first address of
  \<open>lan0\<close>.\<close>

theorem dns_address_written_witness:
  "\<exists>pkt rpkt.
     handle_client_request example_server_config example_env (example_client, 546)
       [11, 0x0a, 0x0b, 0x0c] 4 (Slave 0) = Finished (Some pkt) \<and>
     bytes_at (sp_iov pkt ! 1) 8 16 = example_linklocal \<and>
     relay_server_response example_h example_config example_env example_relay_reply 70 =
       Finished (Some rpkt) \<and>
     bytes_at (sp_iov rpkt ! 0) 8 16 = example_linklocal"
proof -
  have wf: "addresses_wellformed example_env"
    by (simp add: addresses_wellformed_def example_defs)
  obtain pkt where pkt: "handle_client_request example_server_config example_env
      (example_client, 546) [11, 0x0a, 0x0b, 0x0c] 4 (Slave 0) = Finished (Some pkt)"
    using example_mini_server_reply by blast
  obtain rpkt where rpkt: "relay_server_response example_h example_config example_env
      example_relay_reply 70 = Finished (Some rpkt)"
    using example_relay_reply_sent by blast
  have scan1: "fold (relay_reply_body example_relay_reply)
      (dhcpv6_options example_relay_reply 34 70) (0, None) = (3, Some (46, 24))"
    by (simp add: eval_defs example_defs opt_defs)
  have scan2: "fold (dns_scan_body example_config example_relay_reply)
      (dhcpv6_options example_relay_reply (46 + 4) (46 + 24)) (False, None, 0, False) =
      (True, Some 54, 1, False)"
    by (simp add: eval_defs example_defs opt_defs)
  have a: "relayd_get_interface_address example_env ''lan0'' True = Some example_linklocal"
    by (simp add: eval_defs example_defs)
  from dns_address_written [OF wf, where cfg = example_server_config and
      peer = "(example_client, 546)" and data = "[11, 0x0a, 0x0b, 0x0c]" and len = 4 and
      iface = "Slave 0" and pkt = pkt] pkt a
  have one: "bytes_at (sp_iov pkt ! 1) 8 16 = example_linklocal"
    by (simp add: example_defs iface_of_def)
  from dns_address_written [OF wf, where cfg = example_config and h = example_h and
      rdata = example_relay_reply and rlen = 70 and rpkt = rpkt and idx = 3 and pd = 46 and
      pl = 24 and ptr = 54 and cnt = 1 and au = False and k = 0] rpkt scan1 scan2 a
  have two: "bytes_at (sp_iov rpkt ! 0) 8 16 = example_linklocal"
    by (simp add: example_defs find_slave_def msg_defs)
  from pkt rpkt one two show ?thesis by blast
qed

text \<open>The claim as stated fails: the slave's first address is link-local, and both the
  mini-server and the relay hand exactly that address to the client as DNS server.\<close>

theorem dns_address_is_link_local:
  "handle_client_request example_server_config example_env (example_client, 546)
     [11, 0x0a, 0x0b, 0x0c] 4 (Slave 0) =
   Finished (Some \<lparr> sp_socket = Dhcpv6_socket, sp_dest = example_client, sp_port = 546,
     sp_iface = Slave 0,
     sp_iov = [[], [7, 0x0a, 0x0b, 0x0c, 0, 23, 0, 16] @ example_linklocal @
       [0, 2, 0, 10, 0, 3, 0, 1, 0x11, 0x22, 0x33, 0x44, 0x55, 0x66], [], []] \<rparr>) \<and>
   relay_server_response example_h example_config example_env example_relay_reply 70 =
   Finished (Some \<lparr> sp_socket = Dhcpv6_socket, sp_dest = example_client, sp_port = 546,
     sp_iface = Slave 0,
     sp_iov = [[7, 0x0a, 0x0b, 0x0c, 0, 23, 0, 16] @ example_linklocal] \<rparr>) \<and>
   IN6_IS_ADDR_LINKLOCAL example_linklocal"
  using example_mini_server_reply example_relay_reply_sent
  by (simp add: example_defs IN6_IS_ADDR_LINKLOCAL_def)

section \<open>The mini-server echoes transaction id and Client-ID\<close>

text \<open>C6, as amended. A top-level request (not a RELAY-FORW, not a REBIND) that carries
  exactly one Client-ID option, of at most 130 bytes, and no Server-ID other than the
  server's, is answered whenever an address of the ingress interface is found: by an
  ADVERTISE if it is a SOLICIT and by a REPLY otherwise (Information-Request and Request
  among them). The reply starts with that message type and the 3 bytes of the request's
  transaction id, and after the 38 bytes of its fixed part it ends with the request's
  Client-ID option, byte for byte.\<close>

theorem mini_server_echo:
  assumes len: "4 \<le> len" "len \<le> length data"
    and top: "data ! 0 \<noteq> DHCPV6_MSG_RELAY_FORW" "data ! 0 \<noteq> DHCPV6_MSG_REBIND"
    and cid: "filter is_clientid (dhcpv6_options data 4 len) = [(DHCPV6_OPT_CLIENTID, l, d)]"
      "l \<le> 130"
    and sid: "list_all (serverid_ok (server_duid (mac (iface_of cfg iface))) data)
      (dhcpv6_options data 4 len)"
    and mac: "length (mac (iface_of cfg iface)) = 6"
    and wf: "addresses_wellformed env"
    and a: "relayd_get_interface_address env (ifname (iface_of cfg iface)) True = Some a"
  shows "\<exists>pkt. handle_client_request cfg env peer data len iface = Finished (Some pkt) \<and>
      sp_dest pkt = fst peer \<and> sp_port pkt = snd peer \<and> sp_iface pkt = iface \<and>
      sp_iov pkt ! 0 = [] \<and> sp_iov pkt ! 3 = [] \<and>
      (sp_iov pkt ! 1) ! 0 =
        (if data ! 0 = DHCPV6_MSG_SOLICIT then DHCPV6_MSG_ADVERTISE else DHCPV6_MSG_REPLY) \<and>
      bytes_at (sp_iov pkt ! 1) 1 3 = bytes_at data 1 3 \<and>
      drop 38 (sp_iov pkt ! 1) = bytes_at data (d - 4) (4 + l)"
proof -
  have "(DHCPV6_OPT_CLIENTID, l, d) \<in> set (filter is_clientid (dhcpv6_options data 4 len))"
    by (simp add: cid(1))
  then have mem: "(DHCPV6_OPT_CLIENTID, l, d) \<in> set (dhcpv6_options data 4 len)" by simp
  from dhcpv6_options_bounds [OF mem] len have b: "8 \<le> d" "d + l \<le> length data" by simp_all
  from mem dhcpv6_walk_fields [of DHCPV6_OPT_CLIENTID l d data 4 len]
  have f: "be16 data (d - 4) = DHCPV6_OPT_CLIENTID" "be16 data (d - 2) = l"
    by (simp_all add: dhcpv6_options_def)
  from client_options_one [OF cid sid, of 0 "replicate 130 0" 38 0] obtain i2 where
    co: "client_options (server_duid (mac (iface_of cfg iface))) data (dhcpv6_options data 4 len)
           (0, replicate 130 0, 38, 0) =
         Some (l, memcpy (replicate 130 0) 0 (bytes_at data d l), 38 + (4 + l), i2)"
    by blast
  define mt where "mt = (if data ! 0 = DHCPV6_MSG_SOLICIT then DHCPV6_MSG_ADVERTISE
    else DHCPV6_MSG_REPLY)"
  from relayd_get_interface_address_found [OF a wf] have a16: "length a = 16" by simp
  have tr: "length (bytes_at data 1 3) = 3" using len by (simp add: bytes_at_def)
  have cl: "length (bytes_at data d l) = l" using b by (simp add: bytes_at_def)
  from dest_bytes_clientid [OF tr a16 _ cl cid(2), of "mac (iface_of cfg iface)" mt] mac
  obtain hd where
    hd: "take (38 + (4 + l)) (dest_bytes mt (bytes_at data 1 3) a (mac (iface_of cfg iface)) l
           (memcpy (replicate 130 0) 0 (bytes_at data d l))) =
         hd @ htons DHCPV6_OPT_CLIENTID @ htons l @ bytes_at data d l"
    and hdl: "length hd = 38" and hd0: "hd ! 0 = mt" and hdtr: "bytes_at hd 1 3 = bytes_at data 1 3"
    by auto
  have echo: "htons DHCPV6_OPT_CLIENTID @ htons l @ bytes_at data d l =
      bytes_at data (d - 4) (4 + l)"
    using bytes_at_option [of d l data] b f by simp
  have res: "handle_client_request cfg env peer data len iface =
      Finished (Some \<lparr> sp_socket = Dhcpv6_socket, sp_dest = fst peer, sp_port = snd peer,
        sp_iface = iface,
        sp_iov = [[], hd @ bytes_at data (d - 4) (4 + l), take i2 stat_bytes, []] \<rparr>)"
    using len top co a cid(2) hd echo
    by (simp add: handle_client_request_def Let_def mt_def bytes_at_def)
  have "(hd @ bytes_at data (d - 4) (4 + l)) ! 0 = mt" using hd0 hdl by (simp add: nth_append)
  moreover have "bytes_at (hd @ bytes_at data (d - 4) (4 + l)) 1 3 = bytes_at data 1 3"
    using hdtr hdl by (simp add: bytes_at_def)
  moreover have "drop 38 (hd @ bytes_at data (d - 4) (4 + l)) = bytes_at data (d - 4) (4 + l)"
    using hdl by simp
  ultimately show ?thesis unfolding res mt_def by simp
qed


text \<open>An instance: the example SOLICIT is answered by an ADVERTISE with its transaction id
  and its Client-ID option.\<close>

theorem mini_server_echo_witness:
  "\<exists>pkt. handle_client_request example_server_config example_env (example_client, 546)
       example_solicit 16 (Slave 0) = Finished (Some pkt) \<and>
     (sp_iov pkt ! 1) ! 0 = DHCPV6_MSG_ADVERTISE \<and>
     bytes_at (sp_iov pkt ! 1) 1 3 = [0x0a, 0x0b, 0x0c] \<and>
     drop 38 (sp_iov pkt ! 1) = [0, 1, 0, 8, 1, 2, 3, 4, 5, 6, 7, 8]"
proof -
  have opts: "dhcpv6_options example_solicit 4 16 = [(1, 8, 8)]"
    by (simp add: eval_defs example_solicit_def)
  have "\<exists>pkt. handle_client_request example_server_config example_env (example_client, 546)
       example_solicit 16 (Slave 0) = Finished (Some pkt) \<and>
      sp_dest pkt = fst (example_client, 546 :: nat) \<and> sp_port pkt = snd (example_client, 546 :: nat) \<and>
      sp_iface pkt = Slave 0 \<and>
      sp_iov pkt ! 0 = [] \<and> sp_iov pkt ! 3 = [] \<and>
      (sp_iov pkt ! 1) ! 0 =
        (if example_solicit ! 0 = DHCPV6_MSG_SOLICIT then DHCPV6_MSG_ADVERTISE
         else DHCPV6_MSG_REPLY) \<and>
      bytes_at (sp_iov pkt ! 1) 1 3 = bytes_at example_solicit 1 3 \<and>
      drop 38 (sp_iov pkt ! 1) = bytes_at example_solicit (8 - 4) (4 + 8)"
  proof (rule mini_server_echo [where a = example_linklocal])
    show "4 \<le> (16 :: nat)" by simp
    show "16 \<le> length example_solicit" by (simp add: example_solicit_def)
    show "example_solicit ! 0 \<noteq> DHCPV6_MSG_RELAY_FORW" "example_solicit ! 0 \<noteq> DHCPV6_MSG_REBIND"
      by (simp_all add: example_solicit_def msg_defs)
    show "filter is_clientid (dhcpv6_options example_solicit 4 16) = [(DHCPV6_OPT_CLIENTID, 8, 8)]"
      by (simp add: opts is_clientid_def opt_defs)
    show "(8 :: nat) \<le> 130" by simp
    show "list_all (serverid_ok (server_duid (mac (iface_of example_server_config (Slave 0))))
        example_solicit) (dhcpv6_options example_solicit 4 16)"
      by (simp add: opts serverid_ok_def opt_defs)
    show "length (mac (iface_of example_server_config (Slave 0))) = 6"
      by (simp add: example_defs iface_of_def)
    show "addresses_wellformed example_env"
      by (simp add: addresses_wellformed_def example_defs)
    show "relayd_get_interface_address example_env
        (ifname (iface_of example_server_config (Slave 0))) True = Some example_linklocal"
      by (simp add: eval_defs example_defs)
  qed
  then show ?thesis
    by (auto simp: example_solicit_def bytes_at_def msg_defs)
qed

text \<open>The claim as stated fails: a SOLICIT whose Client-ID is 131 bytes long is answered
  by an ADVERTISE of 38 bytes, which carries no Client-ID option at all.\<close>

theorem long_clientid_not_echoed:
  "handle_client_request example_server_config example_env (example_client, 546)
     ([1, 0x0a, 0x0b, 0x0c, 0, 1, 0, 131] @ replicate 131 0x5a) 139 (Slave 0) =
   Finished (Some \<lparr> sp_socket = Dhcpv6_socket, sp_dest = example_client, sp_port = 546,
     sp_iface = Slave 0,
     sp_iov = [[], [2, 0x0a, 0x0b, 0x0c, 0, 23, 0, 16] @ example_linklocal @
       [0, 2, 0, 10, 0, 3, 0, 1, 0x11, 0x22, 0x33, 0x44, 0x55, 0x66], [], []] \<rparr>)"
  by (simp add: eval_defs example_defs msg_defs opt_defs nth_append)

section \<open>Slaves without an address to rewrite the DNS entries to\<close>

text \<open>C8, as amended. A Router Advertisement is forwarded exactly once to each slave for
  which no DNS rewrite is due (always-rewrite-dns off, or no RDNSS option with an address)
  or an address to rewrite to is found (the configured DNS address or an address of that
  slave), in the order of the slaves. A slave for which the rewrite is due and no address
  is found is skipped: nothing is forwarded to it. Whether one slave is skipped does not
  change whether another one receives the Router Advertisement.\<close>

theorem ra_forwarded_where_rewrite_possible:
  assumes scan: "fold ra_scan_body (icmpv6_options data 16 len) (None, None, 0) =
      (mac_ptr, dns_ptr, dns_count)"
  shows "map sp_iface (forward_router_advertisement cfg env data len) =
      map Slave (filter (\<lambda>i. ra_can_comply cfg env dns_ptr dns_count (slaves cfg ! i))
        [0..<length (slaves cfg)]) \<and>
    distinct (map sp_iface (forward_router_advertisement cfg env data len)) \<and>
    (\<forall>i. Slave i \<in> set (map sp_iface (forward_router_advertisement cfg env data len)) \<longleftrightarrow>
       i < length (slaves cfg) \<and>
       (\<not> (always_rewrite_dns cfg \<and> dns_ptr \<noteq> None \<and> dns_count > 0) \<or>
        ra_rewrite_address cfg env (slaves cfg ! i) \<noteq> None))"
proof -
  have eq: "map sp_iface (forward_router_advertisement cfg env data len) =
      map Slave (filter (\<lambda>i. ra_can_comply cfg env dns_ptr dns_count (slaves cfg ! i))
        [0..<length (slaves cfg)])"
    using scan
    by (simp add: forward_router_advertisement_def Let_def forward_to_slaves_ifaces
        enumerate_filter_indices)
  have "distinct (map Slave (filter (\<lambda>i. ra_can_comply cfg env dns_ptr dns_count (slaves cfg ! i))
        [0..<length (slaves cfg)]))"
    by (simp add: distinct_map inj_on_def)
  with eq show ?thesis by (auto simp: ra_can_comply_def)
qed

text \<open>An instance: of the two slaves, only the one with an address is served.\<close>

theorem ra_forwarded_where_rewrite_possible_witness:
  "map sp_iface (forward_router_advertisement example_two_slaves_config example_env example_ra 48) =
     [Slave 1]"
proof -
  have "fold ra_scan_body (icmpv6_options example_ra 16 48) (None, None, 0) =
      (Some 18, Some 32, 1)"
    by (simp add: ra_eval_defs)
  from ra_forwarded_where_rewrite_possible [OF this, of example_two_slaves_config example_env]
  show ?thesis
    by (simp add: ra_can_comply_def ra_eval_defs example_defs upt_rec)
qed

text \<open>The claim as stated fails: with always-rewrite-dns set, an RDNSS option present and no
  address for \<open>lan1\<close>, the only datagram sent goes to the other slave; nothing is forwarded
  to \<open>lan1\<close>.\<close>

theorem slave_without_address_gets_no_ra:
  "forward_router_advertisement example_two_slaves_config example_env example_ra 48 =
     [\<lparr> sp_socket = Router_discovery_socket, sp_dest = ALL_IPV6_NODES, sp_port = 0,
        sp_iface = Slave 1,
        sp_iov = [[134, 0, 0, 0, 64, 4, 7, 8, 0, 0, 0, 0, 0, 0, 0, 0,
          1, 1, 0x11, 0x22, 0x33, 0x44, 0x55, 0x66,
          25, 3, 0, 0, 0, 0, 0x0e, 0x10] @ example_global] \<rparr>]"
  by (simp add: ra_eval_defs example_defs)

section \<open>The source link-layer address of a forwarded Router Advertisement\<close>

text \<open>C3, as amended. Every Router Advertisement forwarded to a slave I has the length and
  the options (types, lengths, positions) of the one received; the address of its last
  source link-layer address option is I's MAC address; and every byte other than the flags
  byte, that address and, with always-rewrite-dns set, the RDNSS addresses is as received
  (without always-rewrite-dns the RDNSS addresses are as received too). So the sender's
  address S is replaced in the last source link-layer address option only: an earlier
  source link-layer address option is forwarded with S in it.\<close>

theorem forwarded_ra_source_lladdr:
  assumes scan: "fold ra_scan_body (icmpv6_options data 16 len) (None, None, 0) =
      (mac_ptr, dns_ptr, dns_count)"
    and len: "len \<le> length data"
    and macs: "\<forall>s \<in> set (slaves cfg). length (mac s) = 6"
    and pkt: "pkt \<in> set (forward_router_advertisement cfg env data len)"
  shows "\<exists>i P. i < length (slaves cfg) \<and> sp_iface pkt = Slave i \<and> sp_iov pkt = [P] \<and>
      length P = len \<and> icmpv6_options P 16 len = icmpv6_options data 16 len \<and>
      (\<forall>xs l q. filter is_source_lladdr (icmpv6_options data 16 len) =
           xs @ [(ND_OPT_SOURCE_LINKADDR, l, q)] \<longrightarrow>
         mac_ptr = Some (q + 2) \<and> bytes_at P (q + 2) 6 = mac (slaves cfg ! i)) \<and>
      (\<forall>j. j < len \<and> \<not> ra_written cfg mac_ptr dns_ptr dns_count j \<longrightarrow> P ! j = data ! j)"
proof -
  define data2 where "data2 =
    (if enable_dhcpv6_server cfg then data[5 := data ! 5 OR ND_RA_FLAG_OTHER] else data)
      [5 := (if enable_dhcpv6_server cfg then data[5 := data ! 5 OR ND_RA_FLAG_OTHER] else data) ! 5
         OR ND_RA_FLAG_PROXY]"
  have l2: "length data2 = length data" by (simp add: data2_def)
  have d2: "data2 ! j = data ! j" if "j \<noteq> 5" for j using that by (simp add: data2_def)
  from pkt scan have mem: "pkt \<in> set (forward_to_slaves cfg env mac_ptr dns_ptr dns_count len
      data2 0 (slaves cfg))"
    by (simp add: forward_router_advertisement_def Let_def data2_def)
  note r = ra_ranges [OF scan]
  have "\<exists>k F. k < length (slaves cfg) \<and> sp_iface pkt = Slave (0 + k) \<and>
      sp_iov pkt = [take len F] \<and> length F = length data2 \<and>
      (\<forall>j. \<not> ra_written cfg mac_ptr dns_ptr dns_count j \<longrightarrow> F ! j = data2 ! j) \<and>
      (\<forall>m. mac_ptr = Some m \<longrightarrow> bytes_at F m 6 = mac (slaves cfg ! k))"
  proof (rule forward_to_slaves_packets [OF _ _ _ macs mem])
    show "\<And>m. mac_ptr = Some m \<Longrightarrow> m + 6 \<le> length data2" using r(1) len l2 by force
    show "\<And>d. dns_ptr = Some d \<Longrightarrow> d + 16 * dns_count \<le> length data2"
      using r(2) len l2 by force
    show "\<And>m d. mac_ptr = Some m \<Longrightarrow> dns_ptr = Some d \<Longrightarrow>
        m + 6 \<le> d \<or> d + 16 * dns_count \<le> m" using r(3) by blast
  qed
  then obtain k F where k: "k < length (slaves cfg)" "sp_iface pkt = Slave k"
    and iov: "sp_iov pkt = [take len F]" and lF: "length F = length data"
    and fF: "\<And>j. \<not> ra_written cfg mac_ptr dns_ptr dns_count j \<Longrightarrow> F ! j = data2 ! j"
    and mF: "\<And>m. mac_ptr = Some m \<Longrightarrow> bytes_at F m 6 = mac (slaves cfg ! k)"
    using l2 by auto
  define P where "P = take len F"
  have lP: "length P = len" using len lF by (simp add: P_def)
  have nP: "P ! j = F ! j" if "j < len" for j using that by (simp add: P_def)
  have frame: "P ! j = data ! j" if "j < len" "\<not> ra_written cfg mac_ptr dns_ptr dns_count j" for j
  proof -
    from that(2) have "j \<noteq> 5" by (auto simp: ra_written_def)
    with that fF d2 nP show ?thesis by simp
  qed
  have opts: "icmpv6_options P 16 len = icmpv6_options data 16 len"
  proof (rule icmpv6_options_stable)
    fix j assume j: "16 \<le> j" "j < len"
      and nc: "\<not> (\<exists>(t, l, q) \<in> set (icmpv6_options data 16 len). q + 2 \<le> j \<and> j < q + 8 * l)"
    from j r(4) [of cfg] nc have "\<not> ra_written cfg mac_ptr dns_ptr dns_count j" by auto
    with j frame show "P ! j = data ! j" by simp
  qed
  have last: "mac_ptr = Some (q + 2) \<and> bytes_at P (q + 2) 6 = mac (slaves cfg ! k)"
    if "filter is_source_lladdr (icmpv6_options data 16 len) =
      xs @ [(ND_OPT_SOURCE_LINKADDR, l, q)]" for xs l q
  proof -
    from ra_scan_last [OF scan] that have mp: "mac_ptr = Some (q + 2)"
      by (cases xs) simp_all
    with r(1) have b: "q + 2 + 6 \<le> len" by simp
    have "bytes_at P (q + 2) 6 = bytes_at F (q + 2) 6"
      using b len lF lP
      by (intro bytes_at_eqI) (simp_all add: bytes_at_length bytes_at_nth nP)
    with mF [OF mp] mp show ?thesis by simp
  qed
  from k iov lP opts last frame show ?thesis unfolding P_def [symmetric] by blast
qed


text \<open>An instance: the example Router Advertisement forwarded to \<open>lan0\<close> carries the MAC
  address of \<open>lan0\<close> in its source link-layer address option.\<close>

theorem forwarded_ra_source_lladdr_witness:
  "\<exists>pkt P. pkt \<in> set (forward_router_advertisement example_config example_env example_ra 48) \<and>
     sp_iface pkt = Slave 0 \<and> sp_iov pkt = [P] \<and>
     bytes_at P 18 6 = [0x11, 0x22, 0x33, 0x44, 0x55, 0x66]"
proof -
  have scan: "fold ra_scan_body (icmpv6_options example_ra 16 48) (None, None, 0) =
      (Some 18, Some 32, 1)"
    by (simp add: ra_eval_defs)
  have one: "filter is_source_lladdr (icmpv6_options example_ra 16 48) =
      [] @ [(ND_OPT_SOURCE_LINKADDR, 1, 16)]"
    by (simp add: ra_eval_defs is_source_lladdr_def)
  have "forward_router_advertisement example_config example_env example_ra 48 \<noteq> []"
    by (simp add: ra_eval_defs example_defs)
  then obtain pkt where pkt: "pkt \<in> set (forward_router_advertisement example_config example_env
      example_ra 48)"
    by (cases "forward_router_advertisement example_config example_env example_ra 48") auto
  from forwarded_ra_source_lladdr [OF scan _ _ pkt] one
  obtain i P where "i < length (slaves example_config)" "sp_iface pkt = Slave i"
    "sp_iov pkt = [P]" "bytes_at P (16 + 2) 6 = mac (slaves example_config ! i)"
    by (auto simp: example_defs example_ra_def)
  with pkt show ?thesis by (auto simp: example_defs)
qed

text \<open>The claim as stated fails: of two source link-layer address options only the last
  is rewritten; the first still carries aa:bb:cc:dd:ee:ff in the datagram sent to the
  slave.\<close>

theorem earlier_source_lladdr_kept:
  "forward_router_advertisement example_config example_env example_ra_two_lladdr 32 =
     [\<lparr> sp_socket = Router_discovery_socket, sp_dest = ALL_IPV6_NODES, sp_port = 0,
        sp_iface = Slave 0,
        sp_iov = [[134, 0, 0, 0, 64, 4, 7, 8, 0, 0, 0, 0, 0, 0, 0, 0,
          1, 1, 0xaa, 0xbb, 0xcc, 0xdd, 0xee, 0xff,
          1, 1, 0x11, 0x22, 0x33, 0x44, 0x55, 0x66]] \<rparr>]"
  by (simp add: ra_eval_defs example_defs)

section \<open>The Client-ID round trip in broken mode\<close>




end
